theory Spec2Isabelle
  imports Complex_Main
begin

section \<open>Host-language primitives\<close>

text \<open>
  Strings are lists of code units; \<open>length\<close> is the \<^verbatim>\<open>.length\<close> of the source.
  \<open>slice\<close> is \<^verbatim>\<open>String.prototype.slice(a, b)\<close> on integer arguments: a negative index
  counts from the end, both indices are clamped to the string, and an empty string
  results when the end does not lie after the start.
\<close>

definition slice :: "string \<Rightarrow> int \<Rightarrow> int \<Rightarrow> string" where
  "slice s a b =
     (let len = int (length s);
          lo = (if a < 0 then max (len + a) 0 else min a len);
          hi = (if b < 0 then max (len + b) 0 else min b len)
      in take (nat (hi - lo)) (drop (nat lo) s))"

section \<open>Chunker (\<^verbatim>\<open>chunkText\<close> in lib/db.ts)\<close>

text \<open>
  The \<^verbatim>\<open>while (start < text.length)\<close> loop. Sizes are counts of units; the start
  offset is an integer, since \<^verbatim>\<open>start += chunkSize - overlap\<close> decreases it when the
  overlap exceeds the chunk size. The loop need not end, so it is a partial function:
  \<open>None\<close> stands for a run that never returns.
\<close>

partial_function (option) chunk_loop ::
  "string \<Rightarrow> nat \<Rightarrow> nat \<Rightarrow> int \<Rightarrow> string list \<Rightarrow> string list option" where
  "chunk_loop text chunkSize overlap start chunks =
     (if start < int (length text)
      then chunk_loop text chunkSize overlap (start + (int chunkSize - int overlap))
             (chunks @ [slice text start (start + int chunkSize)])
      else Some chunks)"

declare chunk_loop.simps [code]

definition chunkText :: "string \<Rightarrow> nat \<Rightarrow> nat \<Rightarrow> string list option" where
  "chunkText text chunkSize overlap =
     (if length text \<le> chunkSize then Some [text]
      else chunk_loop text chunkSize overlap 0 [])"

text \<open>The number of spans the loop produces for a text of \<open>n\<close> units that is longer than one chunk.\<close>

definition chunk_count :: "nat \<Rightarrow> nat \<Rightarrow> nat \<Rightarrow> nat" where
  "chunk_count n chunkSize overlap = (n + (chunkSize - overlap) - 1) div (chunkSize - overlap)"

text \<open>The span of index \<open>i\<close>: at most \<open>chunkSize\<close> units from offset \<open>i * (chunkSize - overlap)\<close>.\<close>

definition chunk_span :: "string \<Rightarrow> nat \<Rightarrow> nat \<Rightarrow> nat \<Rightarrow> string" where
  "chunk_span text chunkSize overlap i = take chunkSize (drop (i * (chunkSize - overlap)) text)"

section \<open>Rendering numbers\<close>

text \<open>The decimal text of a non-negative integer, as a template literal \<^verbatim>\<open>${i}\<close> renders it.\<close>

definition digit_char :: "nat \<Rightarrow> char" where
  "digit_char d = ''0123456789'' ! d"

fun show_nat :: "nat \<Rightarrow> string" where
  "show_nat n = (if n < 10 then [digit_char n] else show_nat (n div 10) @ [digit_char (n mod 10)])"

declare show_nat.simps [simp del]

section \<open>Embedding rows (table \<^verbatim>\<open>quorum_embeddings\<close>)\<close>

type_synonym vector = "real list"

record embedding_row =
  ref_id :: string
  ref_type :: string
  embedding :: vector
  content_hash :: string
  created_at :: nat

text \<open>
  SQL \<^verbatim>\<open>s LIKE pattern\<close>: in the pattern \<^verbatim>\<open>%\<close> stands for any sequence of characters and
  \<^verbatim>\<open>_\<close> for any single character; every other character stands for itself.
\<close>

fun sql_like :: "string \<Rightarrow> string \<Rightarrow> bool" where
  "sql_like [] [] = True"
| "sql_like (c # cs) [] = False"
| "sql_like [] (p # ps) = (p = CHR ''%'' \<and> sql_like [] ps)"
| "sql_like (c # cs) (p # ps) =
     (if p = CHR ''%'' then sql_like (c # cs) ps \<or> sql_like cs (p # ps)
      else if p = CHR ''_'' then sql_like cs ps
      else p = c \<and> sql_like cs ps)"

text \<open>The condition \<^verbatim>\<open>ref_type = 'document' OR ref_type LIKE 'document_chunk_%'\<close>.\<close>

definition document_family :: "string \<Rightarrow> bool" where
  "document_family rt = (rt = ''document'' \<or> sql_like rt ''document_chunk_%'')"

text \<open>\<^verbatim>\<open>DELETE FROM quorum_embeddings WHERE ref_id = $1 AND (...)\<close>.\<close>

definition delete_document_embeddings :: "string \<Rightarrow> embedding_row list \<Rightarrow> embedding_row list" where
  "delete_document_embeddings docId rows =
     filter (\<lambda>r. \<not> (ref_id r = docId \<and> document_family (ref_type r))) rows"

text \<open>
  \<^verbatim>\<open>INSERT ... ON CONFLICT (ref_type, ref_id) DO UPDATE SET embedding = EXCLUDED.embedding,
  content_hash = EXCLUDED.content_hash, created_at = now()\<close>: the row with the same key is
  updated in place, otherwise the new row is added.
\<close>

fun upsert_embedding :: "embedding_row \<Rightarrow> embedding_row list \<Rightarrow> embedding_row list" where
  "upsert_embedding new [] = [new]"
| "upsert_embedding new (r # rows) =
     (if ref_type r = ref_type new \<and> ref_id r = ref_id new
      then r\<lparr>embedding := embedding new, content_hash := content_hash new,
              created_at := created_at new\<rparr> # rows
      else r # upsert_embedding new rows)"

section \<open>Embedding ingestion (\<^verbatim>\<open>generateAndStoreEmbedding\<close> in lib/db.ts)\<close>

text \<open>
  What one request to the Embedding Provider can do: the \<^verbatim>\<open>fetch\<close> (or the decoding of its
  body) throws, the response is not \<^verbatim>\<open>ok\<close>, or the response carries an embedding. The
  provider is external: it is a parameter, asked with the index of the chunk and its text.
  The digest \<^verbatim>\<open>createHash('sha256')\<close> and the clock behind \<^verbatim>\<open>now()\<close> are parameters too.
\<close>

datatype response = Throws | Not_ok | Ok_body vector

datatype error = Thrown

type_synonym provider = "nat \<Rightarrow> string \<Rightarrow> response"

text \<open>\<^verbatim>\<open>chunks.length === 1 ? 'document' : `document_chunk_${i}`\<close>.\<close>

definition chunk_ref_type :: "nat \<Rightarrow> nat \<Rightarrow> string" where
  "chunk_ref_type n i = (if n = 1 then ''document'' else ''document_chunk_'' @ show_nat i)"

text \<open>
  The \<^verbatim>\<open>for\<close> loop over the chunks, from index \<open>i\<close> on the chunks not yet embedded; \<open>n\<close> is
  \<^verbatim>\<open>chunks.length\<close>. A response that is not ok returns \<open>False\<close> at once; a throw leaves the
  function at once; in both cases the rows written so far stay.
\<close>

fun embed_chunks ::
  "provider \<Rightarrow> (string \<Rightarrow> string) \<Rightarrow> (nat \<Rightarrow> nat) \<Rightarrow> string \<Rightarrow> nat \<Rightarrow> nat \<Rightarrow> string list \<Rightarrow>
   embedding_row list \<Rightarrow> (error + bool) \<times> embedding_row list" where
  "embed_chunks fetch sha256 now docId n i [] rows = (Inr True, rows)"
| "embed_chunks fetch sha256 now docId n i (c # cs) rows =
     (case fetch i c of
        Throws \<Rightarrow> (Inl Thrown, rows)
      | Not_ok \<Rightarrow> (Inr False, rows)
      | Ok_body v \<Rightarrow>
          embed_chunks fetch sha256 now docId n (Suc i) cs
            (upsert_embedding
               \<lparr>ref_id = docId, ref_type = chunk_ref_type n i, embedding = v,
                content_hash = sha256 c, created_at = now i\<rparr> rows))"

text \<open>\<^verbatim>\<open>needsChunking ? chunkText(content, 500, 50) : [content]\<close>.\<close>

definition document_chunks :: "string \<Rightarrow> string list option" where
  "document_chunks content =
     (if 2000 < length content then chunkText content 500 50 else Some [content])"

text \<open>The whole function; \<open>None\<close> only if the chunker never returned.\<close>

definition generateAndStoreEmbedding ::
  "provider \<Rightarrow> (string \<Rightarrow> string) \<Rightarrow> (nat \<Rightarrow> nat) \<Rightarrow> string \<Rightarrow> string \<Rightarrow>
   embedding_row list \<Rightarrow> ((error + bool) \<times> embedding_row list) option" where
  "generateAndStoreEmbedding fetch sha256 now docId content rows =
     (case document_chunks content of
        None \<Rightarrow> None
      | Some chunks \<Rightarrow>
          Some (embed_chunks fetch sha256 now docId (length chunks) 0 chunks
                  (delete_document_embeddings docId rows)))"

text \<open>The rows of a document's family, and the key of the unique index \<^verbatim>\<open>(ref_type, ref_id)\<close>.\<close>

definition document_rows :: "string \<Rightarrow> embedding_row list \<Rightarrow> embedding_row list" where
  "document_rows docId rows =
     filter (\<lambda>r. ref_id r = docId \<and> document_family (ref_type r)) rows"

definition row_key :: "embedding_row \<Rightarrow> string \<times> string" where
  "row_key r = (ref_type r, ref_id r)"

text \<open>
  Reading a response: whether it carries an embedding, and which. \<open>chunk_row\<close> is the row the
  loop writes for the chunk of index \<open>i\<close>.
\<close>

definition ok :: "response \<Rightarrow> bool" where
  "ok r = (case r of Ok_body v \<Rightarrow> True | _ \<Rightarrow> False)"

definition body :: "response \<Rightarrow> vector" where
  "body r = (case r of Ok_body v \<Rightarrow> v | _ \<Rightarrow> [])"

definition chunk_row ::
  "provider \<Rightarrow> (string \<Rightarrow> string) \<Rightarrow> (nat \<Rightarrow> nat) \<Rightarrow> string \<Rightarrow> string list \<Rightarrow> nat \<Rightarrow> embedding_row" where
  "chunk_row fetch sha256 now docId chunks i =
     \<lparr>ref_id = docId, ref_type = chunk_ref_type (length chunks) i,
      embedding = body (fetch i (chunks ! i)), content_hash = sha256 (chunks ! i),
      created_at = now i\<rparr>"

text \<open>
  Sample providers: one that answers every request, one whose response for chunk \<open>j\<close> is not
  ok, one whose every request throws.
\<close>

definition provider_ok :: provider where
  "provider_ok i c = Ok_body []"

definition provider_throwing :: provider where
  "provider_throwing i c = Throws"

definition provider_failing_at :: "nat \<Rightarrow> provider" where
  "provider_failing_at j i c = (if i = j then Not_ok else Ok_body [])"

section \<open>Observations (table \<^verbatim>\<open>quorum_observations\<close>, \<^verbatim>\<open>createObservation\<close> in lib/db.ts)\<close>

record observation =
  obs_id :: string
  obs_category :: string
  obs_content :: string
  obs_source_agent :: string
  obs_severity :: string
  obs_status :: string
  obs_ref_id :: "string option"
  obs_ref_type :: "string option"
  obs_fingerprint :: string
  obs_metadata :: string
  obs_created_at :: nat
  obs_updated_at :: nat

text \<open>
  The argument of \<^verbatim>\<open>createObservation\<close>. An optional field that is absent (or \<^verbatim>\<open>null\<close>) is
  \<open>None\<close>; \<open>in_metadata\<close> is the JSON text of the metadata object when one is given.
\<close>

record observation_input =
  in_category :: string
  in_content :: string
  in_source_agent :: string
  in_severity :: "string option"
  in_status :: "string option"
  in_ref_id :: "string option"
  in_ref_type :: "string option"
  in_metadata :: "string option"

text \<open>
  SQL \<^verbatim>\<open>x IN (v1, ..., vn)\<close> in three-valued logic: unknown (\<open>None\<close>) when \<open>x\<close> is null, or when
  \<open>x\<close> is not listed and the list holds a null. A \<^verbatim>\<open>CHECK\<close> constraint rejects a row only
  when its condition is false.
\<close>

fun sql_in :: "string option \<Rightarrow> string option list \<Rightarrow> bool option" where
  "sql_in None vs = None"
| "sql_in (Some x) vs =
     (if List.member vs (Some x) then Some True
      else if List.member vs None then None
      else Some False)"

definition check_holds :: "bool option \<Rightarrow> bool" where
  "check_holds b = (b \<noteq> Some False)"

text \<open>The four \<^verbatim>\<open>CHECK\<close> constraints of the table, on the row proposed for insertion.\<close>

definition observation_checks :: "observation \<Rightarrow> bool" where
  "observation_checks r =
     (check_holds (sql_in (Some (obs_category r))
        [Some ''critique'', Some ''risk'', Some ''insight'', Some ''recommendation'',
         Some ''issue'', Some ''improvement'', Some ''other'']) \<and>
      check_holds (sql_in (Some (obs_severity r))
        [Some ''info'', Some ''low'', Some ''medium'', Some ''high'', Some ''critical'']) \<and>
      check_holds (sql_in (Some (obs_status r))
        [Some ''open'', Some ''acknowledged'', Some ''addressed'', Some ''dismissed'']) \<and>
      check_holds (sql_in (obs_ref_type r)
        [Some ''document'', Some ''task'', Some ''event'', Some ''agent_run'',
         Some ''observation'', None]))"

datatype db_error = Check_violation | Unique_violation

text \<open>\<^verbatim>\<open>`${data.category}:${data.source_agent}:${data.content}`\<close>.\<close>

definition fingerprintData :: "observation_input \<Rightarrow> string" where
  "fingerprintData d = in_category d @ '':'' @ in_source_agent d @ '':'' @ in_content d"

text \<open>
  The row proposed by the \<^verbatim>\<open>INSERT\<close>: \<^verbatim>\<open>??\<close> supplies the defaults, \<open>new_id\<close> is the value
  \<^verbatim>\<open>gen_random_uuid()\<close> draws for the id column, \<open>now\<close> the time of the statement.
\<close>

definition proposed_row ::
  "(string \<Rightarrow> string) \<Rightarrow> nat \<Rightarrow> string \<Rightarrow> observation_input \<Rightarrow> observation" where
  "proposed_row sha256 now new_id d =
     \<lparr>obs_id = new_id, obs_category = in_category d, obs_content = in_content d,
      obs_source_agent = in_source_agent d,
      obs_severity = (case in_severity d of None \<Rightarrow> ''info'' | Some s \<Rightarrow> s),
      obs_status = (case in_status d of None \<Rightarrow> ''open'' | Some s \<Rightarrow> s),
      obs_ref_id = in_ref_id d, obs_ref_type = in_ref_type d,
      obs_fingerprint = sha256 (fingerprintData d),
      obs_metadata = (case in_metadata d of None \<Rightarrow> ''{}'' | Some m \<Rightarrow> m),
      obs_created_at = now, obs_updated_at = now\<rparr>"

text \<open>
  \<^verbatim>\<open>ON CONFLICT (fingerprint) DO UPDATE SET content = EXCLUDED.content, metadata =
  EXCLUDED.metadata, updated_at = now() RETURNING *\<close>: the row with the same fingerprint is
  updated in place and returned; without one the proposed row is inserted, unless its id
  is taken (the primary key).
\<close>

definition conflict_update :: "observation \<Rightarrow> observation \<Rightarrow> observation" where
  "conflict_update new r =
     r\<lparr>obs_content := obs_content new, obs_metadata := obs_metadata new,
       obs_updated_at := obs_updated_at new\<rparr>"

fun upsert_observation ::
  "observation \<Rightarrow> observation list \<Rightarrow> observation list \<Rightarrow> db_error + observation \<times> observation list" where
  "upsert_observation new seen [] =
     (if List.member (map obs_id seen) (obs_id new) then Inl Unique_violation
      else Inr (new, seen @ [new]))"
| "upsert_observation new seen (r # rows) =
     (if obs_fingerprint r = obs_fingerprint new
      then Inr (conflict_update new r, seen @ conflict_update new r # rows)
      else upsert_observation new (seen @ [r]) rows)"

definition createObservation ::
  "(string \<Rightarrow> string) \<Rightarrow> nat \<Rightarrow> string \<Rightarrow> observation_input \<Rightarrow> observation list \<Rightarrow>
   db_error + observation \<times> observation list" where
  "createObservation sha256 now new_id d table =
     (let row = proposed_row sha256 now new_id d
      in if \<not> observation_checks row then Inl Check_violation
         else upsert_observation row [] table)"

text \<open>Two inputs whose triples differ and whose colon-joined texts agree.\<close>

definition collision_first :: observation_input where
  "collision_first =
     \<lparr>in_category = ''risk'', in_content = ''disk full'', in_source_agent = ''executor:ops'',
      in_severity = None, in_status = None, in_ref_id = None, in_ref_type = None,
      in_metadata = None\<rparr>"

definition collision_second :: observation_input where
  "collision_second =
     \<lparr>in_category = ''risk'', in_content = ''ops:disk full'', in_source_agent = ''executor'',
      in_severity = None, in_status = None, in_ref_id = None, in_ref_type = None,
      in_metadata = None\<rparr>"

text \<open>The spec's sample observation.\<close>

definition invoice_overdue :: observation_input where
  "invoice_overdue =
     \<lparr>in_category = ''risk'', in_content = ''Invoice overdue'', in_source_agent = ''executor'',
      in_severity = None, in_status = None, in_ref_id = None, in_ref_type = None,
      in_metadata = None\<rparr>"

section \<open>Events and the chat stores (\<^verbatim>\<open>storeChatMessage\<close>, \<^verbatim>\<open>storeQuorumMessage\<close> in lib/db.ts)\<close>

text \<open>
  A row of \<^verbatim>\<open>quorum_events\<close> as the two \<^verbatim>\<open>INSERT\<close> statements write it. The metadata object
  \<^verbatim>\<open>{ target_agent, sender }\<close> is kept as its two fields.
\<close>

record quorum_event =
  ev_event_type :: string
  ev_title :: string
  ev_description :: string
  ev_target_agent :: string
  ev_sender :: string
  ev_thread_id :: "string option"
  ev_thread_title :: "string option"

definition storeChatMessage ::
  "string \<Rightarrow> string \<Rightarrow> string \<Rightarrow> quorum_event list \<Rightarrow> quorum_event \<times> quorum_event list" where
  "storeChatMessage agent message sender events =
     (let e = \<lparr>ev_event_type = (if sender = ''user'' then ''chat_message'' else ''chat_response''),
               ev_title = ''Chat '' @ (if sender = ''user'' then ''to'' else ''from'') @ '' '' @ agent,
               ev_description = message, ev_target_agent = agent, ev_sender = sender,
               ev_thread_id = None, ev_thread_title = None\<rparr>
      in (e, events @ [e]))"

definition storeQuorumMessage ::
  "string \<Rightarrow> string \<Rightarrow> string option \<Rightarrow> string option \<Rightarrow> quorum_event list \<Rightarrow>
   quorum_event \<times> quorum_event list" where
  "storeQuorumMessage message sender threadId threadTitle events =
     (let e = \<lparr>ev_event_type = (if sender = ''user'' then ''quorum_chat'' else ''quorum_response''),
               ev_title = (if sender = ''user'' then ''Chat to The Quorum''
                           else ''Response from The Quorum''),
               ev_description = message, ev_target_agent = ''quorum'', ev_sender = sender,
               ev_thread_id = threadId, ev_thread_title = threadTitle\<rparr>
      in (e, events @ [e]))"

text \<open>The transcript events: the responses of an agent or of the council.\<close>

definition is_transcript :: "quorum_event \<Rightarrow> bool" where
  "is_transcript e = (ev_event_type e = ''chat_response'' \<or> ev_event_type e = ''quorum_response'')"

definition transcripts :: "quorum_event list \<Rightarrow> quorum_event list" where
  "transcripts events = filter is_transcript events"

section \<open>Process orchestration (the \<^verbatim>\<open>POST\<close> handlers of api/chat and api/quorum)\<close>

text \<open>
  What the spawned process delivers to the handlers registered in \<^verbatim>\<open>start\<close>, in order:
  output on stdout or stderr, the safety timer firing, the \<^verbatim>\<open>error\<close> event, and the
  \<^verbatim>\<open>close\<close> event with its exit code (\<open>None\<close> is \<^verbatim>\<open>null\<close>, a process ended by a signal).
\<close>

datatype proc_event =
  Stdout string | Stderr string | Timer_fired | Proc_error | Proc_close "int option"

text \<open>
  The state the handlers share: the accumulated \<^verbatim>\<open>fullResponse\<close>, the fragments enqueued
  on the response stream, whether the stream is closed, whether a handler threw (enqueueing
  on or closing a closed stream throws), whether the timer is still set, whether the process
  was sent \<^verbatim>\<open>SIGTERM\<close>, and the event table.
\<close>

record stream_state =
  fullResponse :: string
  enqueued :: "string list"
  stream_closed :: bool
  threw :: bool
  timer_set :: bool
  kill_sent :: bool
  event_store :: "quorum_event list"

text \<open>What differs between the two routes: the fallback texts and the store call.\<close>

record stream_config =
  error_fallback :: string
  close_fallback :: "int option \<Rightarrow> string"
  store_response :: "string \<Rightarrow> quorum_event list \<Rightarrow> quorum_event list"

definition show_int :: "int \<Rightarrow> string" where
  "show_int i = (if i < 0 then ''-'' @ show_nat (nat (- i)) else show_nat (nat i))"

definition show_code :: "int option \<Rightarrow> string" where
  "show_code code = (case code of None \<Rightarrow> ''null'' | Some i \<Rightarrow> show_int i)"

text \<open>The tail of both terminal handlers: the store call, then \<^verbatim>\<open>streamController.close()\<close>.\<close>

definition close_stream :: "stream_state \<Rightarrow> stream_state" where
  "close_stream s = (if stream_closed s then s\<lparr>threw := True\<rparr> else s\<lparr>stream_closed := True\<rparr>)"

definition store_full :: "stream_config \<Rightarrow> stream_state \<Rightarrow> stream_state" where
  "store_full cfg s = s\<lparr>event_store := store_response cfg (fullResponse s) (event_store s)\<rparr>"

text \<open>\<^verbatim>\<open>proc.stdout.on('data', ...)\<close>: accumulate, then forward.\<close>

definition on_data :: "string \<Rightarrow> stream_state \<Rightarrow> stream_state" where
  "on_data text s =
     (let s1 = s\<lparr>fullResponse := fullResponse s @ text\<rparr>
      in if stream_closed s1 then s1\<lparr>threw := True\<rparr>
         else s1\<lparr>enqueued := enqueued s1 @ [text]\<rparr>)"

text \<open>The \<^verbatim>\<open>setTimeout\<close> callback; a cleared timer does not fire.\<close>

definition on_timer :: "stream_state \<Rightarrow> stream_state" where
  "on_timer s = (if timer_set s then s\<lparr>kill_sent := True, timer_set := False\<rparr> else s)"

text \<open>\<^verbatim>\<open>proc.on('error', ...)\<close>.\<close>

definition on_error :: "stream_config \<Rightarrow> stream_state \<Rightarrow> stream_state" where
  "on_error cfg s =
     (let s1 = s\<lparr>timer_set := False\<rparr>
      in if fullResponse s1 = []
         then (let s2 = s1\<lparr>fullResponse := error_fallback cfg\<rparr>
               in if stream_closed s2 then s2\<lparr>threw := True\<rparr>
                  else close_stream (store_full cfg (s2\<lparr>enqueued := enqueued s2 @ [error_fallback cfg]\<rparr>)))
         else close_stream (store_full cfg s1))"

text \<open>\<^verbatim>\<open>proc.on('close', ...)\<close>.\<close>

definition after_fallback :: "stream_config \<Rightarrow> stream_state \<Rightarrow> stream_state" where
  "after_fallback cfg s =
     close_stream (if fullResponse s \<noteq> [] then store_full cfg s else s)"

definition on_close :: "stream_config \<Rightarrow> int option \<Rightarrow> stream_state \<Rightarrow> stream_state" where
  "on_close cfg code s =
     (let s1 = s\<lparr>timer_set := False\<rparr>
      in if code \<noteq> Some 0 \<and> fullResponse s1 = []
         then (let s2 = s1\<lparr>fullResponse := close_fallback cfg code\<rparr>
               in if stream_closed s2 then s2\<lparr>threw := True\<rparr>
                  else after_fallback cfg (s2\<lparr>enqueued := enqueued s2 @ [close_fallback cfg code]\<rparr>))
         else after_fallback cfg s1)"

fun handle :: "stream_config \<Rightarrow> proc_event \<Rightarrow> stream_state \<Rightarrow> stream_state" where
  "handle cfg (Stdout text) s = on_data text s"
| "handle cfg (Stderr text) s = s"
| "handle cfg Timer_fired s = on_timer s"
| "handle cfg Proc_error s = on_error cfg s"
| "handle cfg (Proc_close code) s = on_close cfg code s"

fun run_stream :: "stream_config \<Rightarrow> proc_event list \<Rightarrow> stream_state \<Rightarrow> stream_state" where
  "run_stream cfg [] s = s"
| "run_stream cfg (e # es) s = run_stream cfg es (handle cfg e s)"

definition start_stream :: "quorum_event list \<Rightarrow> stream_state" where
  "start_stream events =
     \<lparr>fullResponse = [], enqueued = [], stream_closed = False, threw = False,
      timer_set = True, kill_sent = False, event_store = events\<rparr>"

text \<open>What \<^verbatim>\<open>spawn\<close> does: it throws, or the process runs and delivers its events.\<close>

datatype spawn_outcome = Spawn_throws | Spawned "proc_event list"

datatype http_response =
  Json_error nat string | Json_response string quorum_event | Stream stream_state

subsection \<open>api/chat\<close>

text \<open>The names in \<^verbatim>\<open>AGENTS\<close> (lib/agents.ts); \<^verbatim>\<open>getAgent\<close> finds a name among them.\<close>

definition AGENTS :: "string list" where
  "AGENTS = [''connector'', ''executor'', ''strategist'', ''devils-advocate'', ''opportunist'',
             ''data-collector'', ''closer'']"

definition getAgent :: "string \<Rightarrow> string option" where
  "getAgent name = find (\<lambda>a. a = name) AGENTS"

definition chat_unavailable :: string where
  "chat_unavailable = ''OpenClaw is not available on this machine. To enable agent chat, install OpenClaw and ensure the gateway is running.''"

definition chat_config :: "string \<Rightarrow> stream_config" where
  "chat_config agent =
     \<lparr>error_fallback = chat_unavailable,
      close_fallback = (\<lambda>code. ''OpenClaw exited with code '' @ show_code code @
                          ''. The agent may be unavailable. Please try again.''),
      store_response = (\<lambda>text events. snd (storeChatMessage agent text ''agent'' events))\<rparr>"

text \<open>
  The body fields \<open>agent\<close> and \<open>message\<close> are \<open>None\<close> when missing or not a string. The result
  is the response and the event table; for a stream the table is the one in the final
  state of the handlers.
\<close>

definition chat_POST ::
  "string option \<Rightarrow> string option \<Rightarrow> spawn_outcome \<Rightarrow> quorum_event list \<Rightarrow>
   http_response \<times> quorum_event list" where
  "chat_POST agent message spawn events =
     (case agent of
        None \<Rightarrow> (Json_error 400 ''Missing or invalid agent name'', events)
      | Some a \<Rightarrow>
        if a = [] then (Json_error 400 ''Missing or invalid agent name'', events)
        else (case message of
          None \<Rightarrow> (Json_error 400 ''Missing or invalid message'', events)
        | Some m \<Rightarrow>
          if m = [] then (Json_error 400 ''Missing or invalid message'', events)
          else if getAgent a = None then (Json_error 404 (''Unknown agent: '' @ a), events)
          else (let events1 = snd (storeChatMessage a m ''user'' events)
                in case spawn of
                     Spawn_throws \<Rightarrow>
                       (let (e, events2) = storeChatMessage a chat_unavailable ''agent'' events1
                        in (Json_response chat_unavailable e, events2))
                   | Spawned pes \<Rightarrow>
                       (let s = run_stream (chat_config a) pes (start_stream events1)
                        in (Stream s, event_store s)))))"

subsection \<open>api/quorum\<close>

definition quorum_unavailable :: string where
  "quorum_unavailable = ''OpenClaw is not available on this machine. To enable The Quorum chat, install OpenClaw and ensure the gateway is running.''"

definition quorum_config :: "string option \<Rightarrow> string option \<Rightarrow> stream_config" where
  "quorum_config threadId threadTitle =
     \<lparr>error_fallback = quorum_unavailable,
      close_fallback = (\<lambda>code. ''OpenClaw exited with code '' @ show_code code @
                          ''. The Quorum may be unavailable. Please try again.''),
      store_response = (\<lambda>text events.
         snd (storeQuorumMessage text ''council'' threadId threadTitle events))\<rparr>"

text \<open>
  \<^verbatim>\<open>threadId || 'default'\<close> and \<^verbatim>\<open>threadTitle || (threadId ? null : 'Default Conversation')\<close>:
  an absent or empty string is falsy.
\<close>

definition truthy :: "string option \<Rightarrow> bool" where
  "truthy v = (case v of None \<Rightarrow> False | Some t \<Rightarrow> t \<noteq> [])"

definition quorum_POST ::
  "string option \<Rightarrow> string option \<Rightarrow> string option \<Rightarrow> spawn_outcome \<Rightarrow> quorum_event list \<Rightarrow>
   http_response \<times> quorum_event list" where
  "quorum_POST message threadId threadTitle spawn events =
     (case message of
        None \<Rightarrow> (Json_error 400 ''Missing or invalid message'', events)
      | Some m \<Rightarrow>
        if m = [] then (Json_error 400 ''Missing or invalid message'', events)
        else (let effectiveThreadId = (if truthy threadId then threadId else Some ''default'');
                  effectiveThreadTitle =
                    (if truthy threadTitle then threadTitle
                     else if truthy threadId then None else Some ''Default Conversation'');
                  events1 = snd (storeQuorumMessage m ''user'' effectiveThreadId
                                   effectiveThreadTitle events)
              in case spawn of
                   Spawn_throws \<Rightarrow>
                     (let (e, events2) = storeQuorumMessage quorum_unavailable ''council''
                                           effectiveThreadId effectiveThreadTitle events1
                      in (Json_response quorum_unavailable e, events2))
                 | Spawned pes \<Rightarrow>
                     (let s = run_stream (quorum_config effectiveThreadId effectiveThreadTitle)
                                pes (start_stream events1)
                      in (Stream s, event_store s))))"

text \<open>
  The events that end an invocation, and the text a list of events wrote to stdout.
\<close>

fun terminal :: "proc_event \<Rightarrow> bool" where
  "terminal Proc_error = True"
| "terminal (Proc_close code) = True"
| "terminal e = False"

fun stdout_text :: "proc_event list \<Rightarrow> string" where
  "stdout_text [] = []"
| "stdout_text (Stdout text # es) = text @ stdout_text es"
| "stdout_text (e # es) = stdout_text es"

text \<open>The transcript text an invocation ends with: the output, or the fallback of its handler.\<close>

definition final_text :: "stream_config \<Rightarrow> proc_event list \<Rightarrow> proc_event \<Rightarrow> string" where
  "final_text cfg pre t =
     (if stdout_text pre \<noteq> [] then stdout_text pre
      else case t of Proc_error \<Rightarrow> error_fallback cfg
                   | Proc_close code \<Rightarrow> (if code = Some 0 then [] else close_fallback cfg code)
                   | _ \<Rightarrow> [])"

section \<open>Document upload (the \<^verbatim>\<open>POST\<close> handler of api/documents/upload)\<close>

text \<open>A row of \<^verbatim>\<open>quorum_documents\<close> as \<^verbatim>\<open>storeDocumentFromUpload\<close> writes it.\<close>

record quorum_document =
  doc_id :: string
  doc_title :: string
  doc_content :: string
  doc_type :: string
  doc_metadata :: "(string \<times> string) list"
  doc_tags :: "string list"

record upload_store =
  documents :: "quorum_document list"
  embeddings :: "embedding_row list"

text \<open>
  What the handler takes from outside: the Embedding Provider, the digest and the clock of
  the ingestion; the id the table draws for a new row and whether the table accepts the row
  (its constraints are not part of these sources); the PDF text extraction (an error message
  or the text), the UTF-8 decoding of a buffer, and \<^verbatim>\<open>JSON.parse\<close> of the tags field (\<open>None\<close>
  when it throws).
\<close>

record upload_env =
  env_fetch :: provider
  env_sha256 :: "string \<Rightarrow> string"
  env_now :: "nat \<Rightarrow> nat"
  env_new_id :: string
  env_accepts :: "quorum_document \<Rightarrow> bool"
  env_pdf_text :: "string \<Rightarrow> string + string"
  env_utf8 :: "string \<Rightarrow> string"
  env_parse_tags :: "string \<Rightarrow> string list option"

record uploaded_file =
  file_name :: string
  file_type :: string
  file_size :: nat
  file_data :: string

text \<open>
  The two request shapes: multipart form data with the fields \<^verbatim>\<open>file\<close>, \<^verbatim>\<open>title\<close>,
  \<^verbatim>\<open>doc_type\<close>, \<^verbatim>\<open>tags\<close>, and a JSON body with \<^verbatim>\<open>title\<close>, \<^verbatim>\<open>content\<close>, \<^verbatim>\<open>doc_type\<close>,
  \<^verbatim>\<open>tags\<close>. An absent field is \<open>None\<close>.
\<close>

datatype upload_request =
  Multipart "uploaded_file option" "string option" "string option" "string option"
| Json_body "string option" "string option" "string option" "string list option"

datatype upload_response = Upload_error nat string | Upload_ok string bool

text \<open>\<^verbatim>\<open>!x\<close> on an optional string: absent or empty.\<close>

definition falsy :: "string option \<Rightarrow> bool" where
  "falsy v = (case v of None \<Rightarrow> True | Some t \<Rightarrow> t = [])"

text \<open>\<^verbatim>\<open>file.name.toLowerCase().endsWith('.pdf')\<close> and \<^verbatim>\<open>trim()\<close>, on ASCII.\<close>

definition lower_char :: "char \<Rightarrow> char" where
  "lower_char c =
     (let n = (of_char c :: nat) in if 65 \<le> n \<and> n \<le> 90 then char_of (n + 32) else c)"

definition is_pdf_name :: "string \<Rightarrow> bool" where
  "is_pdf_name name = (let n = map lower_char name in drop (length n - 4) n = ''.pdf'')"

definition is_space :: "char \<Rightarrow> bool" where
  "is_space c = List.member [32, 9, 10, 11, 12, 13 :: nat] (of_char c)"

definition trim :: "string \<Rightarrow> string" where
  "trim s = rev (dropWhile is_space (rev (dropWhile is_space s)))"

text \<open>\<^verbatim>\<open>storeDocumentFromUpload\<close>: the insert, which the table may refuse.\<close>

definition storeDocumentFromUpload ::
  "upload_env \<Rightarrow> string \<Rightarrow> string \<Rightarrow> string \<Rightarrow> (string \<times> string) list \<Rightarrow> string list \<Rightarrow>
   quorum_document list \<Rightarrow> (quorum_document \<times> quorum_document list) option" where
  "storeDocumentFromUpload env title content docType meta tags docs =
     (let doc = \<lparr>doc_id = env_new_id env, doc_title = title, doc_content = content,
                 doc_type = docType, doc_metadata = meta, doc_tags = tags\<rparr>
      in if env_accepts env doc then Some (doc, docs @ [doc]) else None)"

text \<open>
  The block both branches end with: \<^verbatim>\<open>embedded\<close> starts \<open>False\<close>, the ingestion runs inside
  \<^verbatim>\<open>try\<close>, a throw is logged, and the response carries the id and the flag. The outer
  result is \<open>None\<close> only if the ingestion never returned.
\<close>

definition embed_and_respond ::
  "upload_env \<Rightarrow> quorum_document \<Rightarrow> string \<Rightarrow> upload_store \<Rightarrow>
   (upload_response \<times> upload_store) option" where
  "embed_and_respond env doc content st =
     (case generateAndStoreEmbedding (env_fetch env) (env_sha256 env) (env_now env)
             (doc_id doc) content (embeddings st) of
        None \<Rightarrow> None
      | Some (res, rows') \<Rightarrow>
          Some (Upload_ok (doc_id doc) (case res of Inl e \<Rightarrow> False | Inr b \<Rightarrow> b),
                st\<lparr>embeddings := rows'\<rparr>))"

definition store_upload ::
  "upload_env \<Rightarrow> string \<Rightarrow> string \<Rightarrow> string \<Rightarrow> (string \<times> string) list \<Rightarrow> string list \<Rightarrow>
   upload_store \<Rightarrow> (upload_response \<times> upload_store) option" where
  "store_upload env title content docType meta tags st =
     (case storeDocumentFromUpload env title content docType meta tags (documents st) of
        None \<Rightarrow> Some (Upload_error 500 ''Failed to upload document'', st)
      | Some (doc, docs') \<Rightarrow> embed_and_respond env doc content (st\<lparr>documents := docs'\<rparr>))"

text \<open>The text of an uploaded file: an error response, or the content.\<close>

definition file_content :: "upload_env \<Rightarrow> uploaded_file \<Rightarrow> upload_response + string" where
  "file_content env file =
     (if is_pdf_name (file_name file)
      then (case env_pdf_text env (file_data file) of
              Inl msg \<Rightarrow> Inl (Upload_error 400 msg)
            | Inr t \<Rightarrow>
                if trim t = []
                then Inl (Upload_error 400 ''Could not extract text from PDF. The PDF may be scanned or contain images only.'')
                else Inr (trim t))
      else Inr (env_utf8 env (file_data file)))"

definition upload_POST ::
  "upload_env \<Rightarrow> upload_request \<Rightarrow> upload_store \<Rightarrow> (upload_response \<times> upload_store) option" where
  "upload_POST env request st =
     (case request of
        Multipart file title docType tagsJson \<Rightarrow>
          (case file of
             None \<Rightarrow> Some (Upload_error 400 ''No file provided'', st)
           | Some f \<Rightarrow>
               if falsy title \<or> falsy docType
               then Some (Upload_error 400 ''Missing required fields: title, doc_type'', st)
               else (case file_content env f of
                  Inl resp \<Rightarrow> Some (resp, st)
                | Inr content \<Rightarrow>
                    (case (if falsy tagsJson then Some [] else env_parse_tags env (the tagsJson)) of
                       None \<Rightarrow> Some (Upload_error 500 ''Failed to upload document'', st)
                     | Some tags \<Rightarrow>
                         store_upload env (the title) content (the docType)
                           [(''filename'', file_name f), (''file_type'', file_type f),
                            (''file_size'', show_nat (file_size f))]
                           tags st)))
      | Json_body title content docType tags \<Rightarrow>
          if falsy title \<or> falsy content \<or> falsy docType
          then Some (Upload_error 400 ''Missing required fields: title, content, doc_type'', st)
          else store_upload env (the title) (the content) (the docType) []
                 (case tags of None \<Rightarrow> [] | Some ts \<Rightarrow> ts) st)"

text \<open>Sample surroundings: a table that accepts every row, plain decoders, a given provider.\<close>

definition sample_env :: "provider \<Rightarrow> upload_env" where
  "sample_env fetch =
     \<lparr>env_fetch = fetch, env_sha256 = id, env_now = id, env_new_id = ''doc-1'',
      env_accepts = (\<lambda>d. True), env_pdf_text = Inr, env_utf8 = id,
      env_parse_tags = (\<lambda>s. Some [])\<rparr>"

definition empty_store :: upload_store where
  "empty_store = \<lparr>documents = [], embeddings = []\<rparr>"

section \<open>Scheduler policy: quiet hours\<close>

text \<open>
  The agents that apply the quiet-hours policy are not among these sources; the definitions
  of this section follow the specification's description of the policy.
\<close>

record quiet_hours =
  quietStart :: nat
  quietEnd :: nat

record task =
  task_title :: string
  task_description :: string
  task_status :: string
  task_priority :: string

text \<open>What a run found: the Task and Observation rows it writes.\<close>

record findings =
  found_tasks :: "task list"
  found_observations :: "observation_input list"

record memory_store =
  mem_tasks :: "task list"
  mem_observations :: "observation_input list"

datatype notification = Notification string findings

text \<open>
  Modelled from the spec: the window test, missing from the sources. A local hour is in
  quiet hours when it lies inside \<open>[quietStart, quietEnd)\<close>.
\<close>

definition in_quiet_hours :: "quiet_hours \<Rightarrow> nat \<Rightarrow> bool" where
  "in_quiet_hours cfg hour = (quietStart cfg \<le> hour \<and> hour < quietEnd cfg)"

text \<open>
  Modelled from the spec: the writes of a run against the Memory Store, missing from the
  sources. The run adds its Task and Observation rows; the hour plays no part.
\<close>

definition write_findings :: "findings \<Rightarrow> memory_store \<Rightarrow> memory_store" where
  "write_findings f m =
     \<lparr>mem_tasks = mem_tasks m @ found_tasks f,
      mem_observations = mem_observations m @ found_observations f\<rparr>"

text \<open>
  Modelled from the spec: the notification gate, missing from the sources. It is checked
  at the notification boundary only: inside quiet hours nothing is sent, outside the
  notification goes out.
\<close>

definition notification_gate :: "quiet_hours \<Rightarrow> nat \<Rightarrow> notification list \<Rightarrow> notification list" where
  "notification_gate cfg hour outgoing = (if in_quiet_hours cfg hour then [] else outgoing)"

text \<open>
  Modelled from the spec: an agent run, missing from the sources. The run is never
  skipped: it writes its findings, and hands its notification to the gate.
\<close>

definition agent_run ::
  "quiet_hours \<Rightarrow> string \<Rightarrow> nat \<Rightarrow> findings \<Rightarrow> memory_store \<Rightarrow> memory_store \<times> notification list" where
  "agent_run cfg agent hour f m =
     (write_findings f m, notification_gate cfg hour [Notification agent f])"

section \<open>Properties of the chunker\<close>

lemma slice_nat: "slice s (int a) (int a + int c) = take c (drop a s)"
  by (auto simp: slice_def Let_def min_def nat_diff_distrib nat_add_distrib)

lemma chunk_loop_diverges_aux:
  assumes "chunk_loop text chunkSize overlap start acc = Some r"
  shows "chunkSize \<le> overlap \<longrightarrow> start < int (length text) \<longrightarrow> False"
proof (rule chunk_loop.raw_induct
    [where P = "\<lambda>t c ov s a r. c \<le> ov \<longrightarrow> s < int (length t) \<longrightarrow> False", OF _ assms])
  fix loop' t c ov s a y
  assume ih: "\<And>t c ov s a y. loop' t c ov s a = Some y \<Longrightarrow>
                 c \<le> ov \<longrightarrow> s < int (length t) \<longrightarrow> False"
    and eq: "(if s < int (length t)
              then loop' t c ov (s + (int c - int ov)) (a @ [slice t s (s + int c)])
              else Some a) = Some y"
  show "c \<le> ov \<longrightarrow> s < int (length t) \<longrightarrow> False"
  proof (intro impI)
    assume le: "c \<le> ov" and lt: "s < int (length t)"
    from eq lt have "loop' t c ov (s + (int c - int ov)) (a @ [slice t s (s + int c)]) = Some y"
      by simp
    from ih[OF this] le lt show False by simp
  qed
qed

lemma chunk_loop_diverges:
  "chunkSize \<le> overlap \<Longrightarrow> start < int (length text) \<Longrightarrow>
   chunk_loop text chunkSize overlap start acc = None"
  using chunk_loop_diverges_aux [of "text" chunkSize overlap start acc]
  by (cases "chunk_loop text chunkSize overlap start acc") auto

lemma concat_take_steps:
  "concat (map (\<lambda>i. take s (drop (i * s) xs)) [0..<m]) = take (m * s) xs"
proof (induction m)
  case 0
  show ?case by simp
next
  case (Suc m)
  have "take (m * s + s) xs = take (m * s) xs @ take s (drop (m * s) xs)"
    by (rule take_add)
  with Suc show ?case by (simp add: add.commute)
qed

lemma concat_drop_steps:
  "concat (map (\<lambda>i. take s (drop (c + i * s) xs)) [0..<m]) = take (m * s) (drop c xs)"
proof -
  have "concat (map (\<lambda>i. take s (drop (i * s) (drop c xs))) [0..<m]) = take (m * s) (drop c xs)"
    by (rule concat_take_steps)
  then show ?thesis by (simp add: add.commute)
qed

lemma ceil_div_bounds:
  fixes n s :: nat
  assumes "0 < s"
  shows "n \<le> ((n + s - 1) div s) * s"
    and "0 < (n + s - 1) div s \<longrightarrow> ((n + s - 1) div s - 1) * s < n"
proof -
  define k where "k = (n + s - 1) div s"
  have a: "n + s - 1 = k * s + (n + s - 1) mod s" by (simp add: k_def)
  have b: "(n + s - 1) mod s < s" using assms by simp
  show "n \<le> ((n + s - 1) div s) * s" using a b assms unfolding k_def[symmetric] by linarith
  show "0 < (n + s - 1) div s \<longrightarrow> ((n + s - 1) div s - 1) * s < n"
    unfolding k_def[symmetric]
  proof
    assume "0 < k"
    then have "(k - 1) * s + s = k * s" by (cases k) auto
    with a b assms show "(k - 1) * s < n" by linarith
  qed
qed

text \<open>The loop, started at offset \<open>a\<close>, appends one span per step until the text is exhausted.\<close>

lemma chunk_loop_closed:
  "overlap < chunkSize \<Longrightarrow> length text \<le> a + k * (chunkSize - overlap) \<Longrightarrow>
   (0 < k \<longrightarrow> a + (k - 1) * (chunkSize - overlap) < length text) \<Longrightarrow>
   chunk_loop text chunkSize overlap (int a) acc =
     Some (acc @ map (\<lambda>i. take chunkSize (drop (a + i * (chunkSize - overlap)) text)) [0..<k])"
proof (induction k arbitrary: a acc)
  case 0
  then show ?case by (subst chunk_loop.simps) simp
next
  case (Suc k)
  let ?st = "chunkSize - overlap"
  from Suc.prems have lt: "a < length text"
    by (metis add_lessD1 diff_Suc_1 zero_less_Suc)
  have step: "int a + (int chunkSize - int overlap) = int (a + ?st)"
    using Suc.prems(1) by simp
  have ih: "chunk_loop text chunkSize overlap (int (a + ?st)) (acc @ [take chunkSize (drop a text)]) =
     Some ((acc @ [take chunkSize (drop a text)]) @
       map (\<lambda>i. take chunkSize (drop ((a + ?st) + i * ?st) text)) [0..<k])"
  proof (rule Suc.IH)
    show "overlap < chunkSize" by fact
    show "length text \<le> a + ?st + k * ?st"
      using Suc.prems(2) by (simp add: add.commute add.left_commute)
    show "0 < k \<longrightarrow> a + ?st + (k - 1) * ?st < length text"
      using Suc.prems(3) by (cases k) (auto simp: add.commute add.left_commute)
  qed
  have "chunk_loop text chunkSize overlap (int a) acc =
        chunk_loop text chunkSize overlap (int (a + ?st)) (acc @ [take chunkSize (drop a text)])"
    by (subst chunk_loop.simps) (simp add: lt step slice_nat del: of_nat_add)
  also note ih
  finally show ?case
    by (subst map_upt_Suc) (simp add: add.assoc)
qed

lemma chunkText_closed:
  assumes "overlap < chunkSize"
  shows "chunkText text chunkSize overlap =
     Some (if length text \<le> chunkSize then [text]
           else map (chunk_span text chunkSize overlap)
                  [0..<chunk_count (length text) chunkSize overlap])"
proof (cases "length text \<le> chunkSize")
  case True
  then show ?thesis by (simp add: chunkText_def)
next
  case False
  let ?s = "chunkSize - overlap"
  let ?k = "chunk_count (length text) chunkSize overlap"
  have s: "0 < ?s" using assms by simp
  have "chunk_loop text chunkSize overlap (int 0) [] =
      Some ([] @ map (\<lambda>i. take chunkSize (drop (0 + i * ?s) text)) [0..<?k])"
    using ceil_div_bounds[OF s, of "length text"] assms
    by (intro chunk_loop_closed) (simp_all add: chunk_count_def)
  with False show ?thesis by (simp add: chunkText_def chunk_span_def[abs_def])
qed

lemma chunk_count_ge2:
  assumes "overlap < chunkSize" "chunkSize < n"
  shows "2 \<le> chunk_count n chunkSize overlap"
proof -
  let ?s = "chunkSize - overlap"
  have "2 * ?s \<le> n + ?s - 1" using assms by linarith
  then have "(2 * ?s) div ?s \<le> (n + ?s - 1) div ?s" by (rule div_le_mono)
  with assms show ?thesis by (simp add: chunk_count_def)
qed

lemma spans_cover_front:
  assumes "overlap < chunkSize" "chunkSize < length text"
  defines "chunks \<equiv> map (chunk_span text chunkSize overlap)
                      [0..<chunk_count (length text) chunkSize overlap]"
  shows "concat (map (take (chunkSize - overlap)) (butlast chunks)) @ last chunks = text"
proof -
  let ?s = "chunkSize - overlap"
  let ?k = "chunk_count (length text) chunkSize overlap"
  have s: "0 < ?s" using assms by simp
  have k2: "2 \<le> ?k" using assms by (intro chunk_count_ge2)
  have up: "length text \<le> ?k * ?s"
    using ceil_div_bounds(1)[OF s, of "length text"] by (simp add: chunk_count_def)
  have k: "?k = Suc (?k - 1)" using k2 by simp
  have "chunks = map (chunk_span text chunkSize overlap) [0..<?k - 1] @
                 [chunk_span text chunkSize overlap (?k - 1)]"
    unfolding chunks_def by (subst k) simp
  then have bl: "butlast chunks = map (chunk_span text chunkSize overlap) [0..<?k - 1]"
    and la: "last chunks = chunk_span text chunkSize overlap (?k - 1)"
    by simp_all
  have tk: "take ?s (chunk_span text chunkSize overlap i) = take ?s (drop (i * ?s) text)" for i
    by (simp add: chunk_span_def min_def)
  have "(?k - 1) * ?s + ?s = ?k * ?s" using k2 by (cases ?k) auto
  with up have "length text - (?k - 1) * ?s \<le> chunkSize" by linarith
  then have rest: "chunk_span text chunkSize overlap (?k - 1) = drop ((?k - 1) * ?s) text"
    by (simp add: chunk_span_def)
  have "concat (map (take ?s) (butlast chunks)) = take ((?k - 1) * ?s) text"
    by (simp add: bl comp_def tk concat_take_steps)
  then show ?thesis unfolding la rest by simp
qed

lemma spans_cover_back:
  assumes "overlap < chunkSize" "chunkSize < length text"
  defines "chunks \<equiv> map (chunk_span text chunkSize overlap)
                      [0..<chunk_count (length text) chunkSize overlap]"
  shows "hd chunks @ concat (map (drop overlap) (tl chunks)) = text"
proof -
  let ?s = "chunkSize - overlap"
  let ?k = "chunk_count (length text) chunkSize overlap"
  have s: "0 < ?s" using assms by simp
  have k2: "2 \<le> ?k" using assms by (intro chunk_count_ge2)
  have up: "length text \<le> ?k * ?s"
    using ceil_div_bounds(1)[OF s, of "length text"] by (simp add: chunk_count_def)
  have k: "?k = Suc (?k - 1)" using k2 by simp
  have chunks: "chunks = chunk_span text chunkSize overlap 0 #
      map (\<lambda>i. chunk_span text chunkSize overlap (Suc i)) [0..<?k - 1]"
    unfolding chunks_def by (subst k, subst map_upt_Suc) simp
  have dr: "drop overlap (chunk_span text chunkSize overlap (Suc i)) =
            take ?s (drop (chunkSize + i * ?s) text)" for i
    using assms(1) by (simp add: chunk_span_def drop_take add.commute add.left_commute)
  have "concat (map (drop overlap) (tl chunks)) = take ((?k - 1) * ?s) (drop chunkSize text)"
    by (simp add: chunks comp_def dr concat_drop_steps)
  moreover have "hd chunks = take chunkSize text"
    by (simp add: chunks chunk_span_def)
  moreover have "take chunkSize text @ take ((?k - 1) * ?s) (drop chunkSize text) =
      take (chunkSize + (?k - 1) * ?s) text"
    by (simp add: take_add)
  moreover have "length text \<le> chunkSize + (?k - 1) * ?s"
  proof -
    have "(?k - 1) * ?s + ?s = ?k * ?s" using k2 by (cases ?k) auto
    with up assms(1) show ?thesis by linarith
  qed
  ultimately show ?thesis by simp
qed

text \<open>
  Claim C6. For every text and every chunk size larger than the overlap, \<open>chunkText\<close> returns
  a non-empty list of chunks; chunk \<open>i\<close> is the slice of the text that starts at offset
  \<open>i * (chunkSize - overlap)\<close> and has at most \<open>chunkSize\<close> units. The chunks cover the text
  with no gap and no missing suffix: the first \<open>chunkSize - overlap\<close> units of every chunk but
  the last, followed by the last chunk, are the text; and so are the first chunk followed by
  every later chunk without its leading \<open>overlap\<close> units.
\<close>

theorem chunkText_coverage:
  assumes "overlap < chunkSize"
  shows "\<exists>chunks. chunkText text chunkSize overlap = Some chunks \<and> chunks \<noteq> [] \<and>
     (\<forall>i<length chunks. chunks ! i = chunk_span text chunkSize overlap i \<and>
                         length (chunks ! i) \<le> chunkSize) \<and>
     concat (map (take (chunkSize - overlap)) (butlast chunks)) @ last chunks = text \<and>
     hd chunks @ concat (map (drop overlap) (tl chunks)) = text"
proof (cases "length text \<le> chunkSize")
  case True
  then show ?thesis using assms
    by (simp add: chunkText_closed chunk_span_def)
next
  case False
  let ?chunks = "map (chunk_span text chunkSize overlap)
                      [0..<chunk_count (length text) chunkSize overlap]"
  from False have long: "chunkSize < length text" by simp
  have "chunkText text chunkSize overlap = Some ?chunks"
    using False assms by (simp add: chunkText_closed)
  moreover have "?chunks \<noteq> []"
    using chunk_count_ge2[OF assms long] by auto
  moreover have "\<forall>i<length ?chunks. ?chunks ! i = chunk_span text chunkSize overlap i \<and>
                         length (?chunks ! i) \<le> chunkSize"
    by (simp add: chunk_span_def)
  moreover note spans_cover_front[OF assms long] spans_cover_back[OF assms long]
  ultimately show ?thesis by blast
qed

theorem chunkText_coverage_witness:
  "(3::nat) < 10 \<and>
   (\<exists>chunks. chunkText ''abcdefghijklmnopqrstuvwxyz'' 10 3 = Some chunks \<and> chunks \<noteq> [] \<and>
     (\<forall>i<length chunks. chunks ! i = chunk_span ''abcdefghijklmnopqrstuvwxyz'' 10 3 i \<and>
                         length (chunks ! i) \<le> 10) \<and>
     concat (map (take (10 - 3)) (butlast chunks)) @ last chunks = ''abcdefghijklmnopqrstuvwxyz'' \<and>
     hd chunks @ concat (map (drop 3) (tl chunks)) = ''abcdefghijklmnopqrstuvwxyz'')"
  using chunkText_coverage [of 3 10 "''abcdefghijklmnopqrstuvwxyz''"]
  by simp

text \<open>
  Claim C9. \<open>chunkText\<close> returns for every text when the chunk size exceeds the overlap.
  When the overlap is at least the chunk size, the step \<open>chunkSize - overlap\<close> is not positive,
  the start offset never increases, and for every text longer than the chunk size the loop
  never ends (\<open>None\<close>).
\<close>

theorem chunkText_termination:
  "(overlap < chunkSize \<longrightarrow> (\<exists>chunks. chunkText text chunkSize overlap = Some chunks)) \<and>
   (chunkSize \<le> overlap \<and> chunkSize < length text \<longrightarrow>
      chunkText text chunkSize overlap = None)"
proof (intro conjI impI)
  assume "overlap < chunkSize"
  then show "\<exists>chunks. chunkText text chunkSize overlap = Some chunks"
    by (simp add: chunkText_closed)
next
  assume a: "chunkSize \<le> overlap \<and> chunkSize < length text"
  then have "text \<noteq> []" by auto
  with a show "chunkText text chunkSize overlap = None"
    by (simp add: chunkText_def chunk_loop_diverges)
qed

theorem chunkText_termination_witness:
  "(\<exists>chunks. chunkText ''abcdef'' 4 1 = Some chunks) \<and> chunkText ''abcdef'' 2 2 = None"
  using chunkText_termination [of 1 4 "''abcdef''"] chunkText_termination [of 2 2 "''abcdef''"]
  by simp

section \<open>Properties of the embedding ingestion\<close>

lemma digit_char_inj: "a < 10 \<Longrightarrow> b < 10 \<Longrightarrow> digit_char a = digit_char b \<Longrightarrow> a = b"
proof -
  assume "a < 10" "b < 10" and eq: "digit_char a = digit_char b"
  have d: "distinct ''0123456789''" by simp
  have "length ''0123456789'' = 10" by simp
  with d \<open>a < 10\<close> \<open>b < 10\<close> eq show "a = b"
    unfolding digit_char_def by (metis nth_eq_iff_index_eq)
qed

lemma show_nat_nonempty: "show_nat n \<noteq> []"
  by (subst show_nat.simps) simp

lemma show_nat_small: "n < 10 \<Longrightarrow> show_nat n = [digit_char n]"
  by (subst show_nat.simps) simp

lemma show_nat_large: "10 \<le> n \<Longrightarrow> show_nat n = show_nat (n div 10) @ [digit_char (n mod 10)]"
  by (subst show_nat.simps) simp

lemma show_nat_inj: "show_nat m = show_nat n \<Longrightarrow> m = n"
proof (induction m arbitrary: n rule: show_nat.induct)
  case (1 m)
  show ?case
  proof (cases "m < 10")
    case True
    then have m: "show_nat m = [digit_char m]" by (rule show_nat_small)
    have "n < 10"
    proof (rule ccontr)
      assume "\<not> n < 10"
      then have "show_nat n = show_nat (n div 10) @ [digit_char (n mod 10)]"
        by (simp add: show_nat_large)
      with m 1(2) show_nat_nonempty[of "n div 10"] show False by simp
    qed
    with True m 1(2) show ?thesis by (simp add: show_nat_small digit_char_inj)
  next
    case False
    then have m: "show_nat m = show_nat (m div 10) @ [digit_char (m mod 10)]"
      by (simp add: show_nat_large)
    have n10: "\<not> n < 10"
    proof
      assume "n < 10"
      then have "show_nat n = [digit_char n]" by (rule show_nat_small)
      with m 1(2) show_nat_nonempty[of "m div 10"] show False by simp
    qed
    then have n: "show_nat n = show_nat (n div 10) @ [digit_char (n mod 10)]"
      by (simp add: show_nat_large)
    from m n 1(2) have a: "show_nat (m div 10) = show_nat (n div 10)"
      and b: "digit_char (m mod 10) = digit_char (n mod 10)" by simp_all
    from 1(1)[OF False a] have "m div 10 = n div 10" .
    moreover from b have "m mod 10 = n mod 10" by (intro digit_char_inj) simp_all
    ultimately show ?thesis by (metis div_mult_mod_eq)
  qed
qed

lemma sql_like_percent: "sql_like s ''%''"
  by (induction s) simp_all

lemma chunk_ref_type_family: "document_family (chunk_ref_type n i)"
  by (simp add: document_family_def chunk_ref_type_def sql_like_percent)

lemma chunk_ref_type_inj: "n \<noteq> 1 \<Longrightarrow> chunk_ref_type n i = chunk_ref_type n j \<Longrightarrow> i = j"
  by (simp add: chunk_ref_type_def show_nat_inj)

lemma upsert_fresh:
  "row_key new \<notin> row_key ` set rows \<Longrightarrow> upsert_embedding new rows = rows @ [new]"
  by (induction rows) (auto simp: row_key_def)

lemma embed_chunks_prefix:
  assumes "i + j \<le> length chunks"
    and "\<forall>k. i \<le> k \<and> k < i + j \<longrightarrow> ok (fetch k (chunks ! k))"
    and "inj_on (chunk_ref_type (length chunks)) {i..<i + j}"
    and "\<forall>r\<in>set rows. \<forall>k\<in>{i..<i + j}. row_key r \<noteq> (chunk_ref_type (length chunks) k, docId)"
  shows "embed_chunks fetch sha256 now docId (length chunks) i (drop i chunks) rows =
         embed_chunks fetch sha256 now docId (length chunks) (i + j) (drop (i + j) chunks)
           (rows @ map (chunk_row fetch sha256 now docId chunks) [i..<i + j])"
  using assms
proof (induction j arbitrary: i rows)
  case 0
  then show ?case by simp
next
  case (Suc j)
  let ?n = "length chunks"
  let ?row = "chunk_row fetch sha256 now docId chunks"
  from Suc.prems(1) have i: "i < ?n" by simp
  then have dr: "drop i chunks = chunks ! i # drop (Suc i) chunks"
    by (simp add: Cons_nth_drop_Suc)
  from Suc.prems(2) have "ok (fetch i (chunks ! i))" by simp
  then obtain v where v: "fetch i (chunks ! i) = Ok_body v"
    by (auto simp: ok_def split: response.splits)
  have row: "\<lparr>ref_id = docId, ref_type = chunk_ref_type ?n i, embedding = v,
              content_hash = sha256 (chunks ! i), created_at = now i\<rparr> = ?row i"
    by (simp add: chunk_row_def v body_def)
  have key: "row_key (?row i) = (chunk_ref_type ?n i, docId)"
    by (simp add: row_key_def chunk_row_def)
  have fresh: "row_key (?row i) \<notin> row_key ` set rows"
    using Suc.prems(4) key by force
  have step: "embed_chunks fetch sha256 now docId ?n i (drop i chunks) rows =
              embed_chunks fetch sha256 now docId ?n (Suc i) (drop (Suc i) chunks) (rows @ [?row i])"
    by (simp add: dr v row upsert_fresh[OF fresh])
  have ih: "embed_chunks fetch sha256 now docId ?n (Suc i) (drop (Suc i) chunks) (rows @ [?row i]) =
            embed_chunks fetch sha256 now docId ?n (Suc i + j) (drop (Suc i + j) chunks)
              ((rows @ [?row i]) @ map ?row [Suc i..<Suc i + j])"
  proof (rule Suc.IH)
    show "Suc i + j \<le> ?n" using Suc.prems(1) by simp
    show "\<forall>k. Suc i \<le> k \<and> k < Suc i + j \<longrightarrow> ok (fetch k (chunks ! k))"
      using Suc.prems(2) by simp
    show "inj_on (chunk_ref_type ?n) {Suc i..<Suc i + j}"
      by (rule inj_on_subset[OF Suc.prems(3)]) auto
    show "\<forall>r\<in>set (rows @ [?row i]). \<forall>k\<in>{Suc i..<Suc i + j}.
            row_key r \<noteq> (chunk_ref_type ?n k, docId)"
    proof (intro ballI)
      fix r k assume r: "r \<in> set (rows @ [?row i])" and k: "k \<in> {Suc i..<Suc i + j}"
      show "row_key r \<noteq> (chunk_ref_type ?n k, docId)"
      proof (cases "r = ?row i")
        case True
        have "chunk_ref_type ?n i \<noteq> chunk_ref_type ?n k"
        proof
          assume "chunk_ref_type ?n i = chunk_ref_type ?n k"
          with Suc.prems(3) k have "i = k" by (auto dest!: inj_onD[where x = i and y = k])
          with k show False by simp
        qed
        with True key show ?thesis by simp
      next
        case False
        with r have "r \<in> set rows" by simp
        with Suc.prems(4) k show ?thesis by auto
      qed
    qed
  qed
  have "[i..<i + Suc j] = i # [Suc i..<Suc i + j]" by (simp add: upt_conv_Cons)
  with step ih show ?case by simp
qed

lemma deleted_rows_fresh:
  "\<forall>r\<in>set (delete_document_embeddings docId rows). \<forall>k\<in>A.
      row_key r \<noteq> (chunk_ref_type n k, docId)"
  by (auto simp: delete_document_embeddings_def row_key_def chunk_ref_type_family)

lemma chunk_ref_type_inj_on:
  "(n = 1 \<longrightarrow> j \<le> 1) \<Longrightarrow> inj_on (chunk_ref_type n) {0..<j}"
proof (cases "n = 1")
  case True
  assume "n = 1 \<longrightarrow> j \<le> 1"
  with True have "j = 0 \<or> j = 1" by auto
  then show ?thesis by auto
next
  case False
  show ?thesis using chunk_ref_type_inj[OF False] by (intro inj_onI) blast
qed

lemma generate_prefix:
  assumes "document_chunks content = Some chunks" "j \<le> length chunks"
    and "\<forall>k<j. ok (fetch k (chunks ! k))"
  shows "generateAndStoreEmbedding fetch sha256 now docId content rows =
     Some (embed_chunks fetch sha256 now docId (length chunks) j (drop j chunks)
            (delete_document_embeddings docId rows @
             map (chunk_row fetch sha256 now docId chunks) [0..<j]))"
proof -
  have "embed_chunks fetch sha256 now docId (length chunks) 0 (drop 0 chunks)
          (delete_document_embeddings docId rows) =
        embed_chunks fetch sha256 now docId (length chunks) (0 + j) (drop (0 + j) chunks)
          (delete_document_embeddings docId rows @
           map (chunk_row fetch sha256 now docId chunks) [0..<0 + j])"
  proof (rule embed_chunks_prefix)
    show "0 + j \<le> length chunks" using assms(2) by simp
    show "\<forall>k. 0 \<le> k \<and> k < 0 + j \<longrightarrow> ok (fetch k (chunks ! k))" using assms(3) by simp
    show "inj_on (chunk_ref_type (length chunks)) {0..<0 + j}"
      using assms(2) by (simp add: chunk_ref_type_inj_on)
    show "\<forall>r\<in>set (delete_document_embeddings docId rows). \<forall>k\<in>{0..<0 + j}.
            row_key r \<noteq> (chunk_ref_type (length chunks) k, docId)"
      by (rule deleted_rows_fresh)
  qed
  with assms(1) show ?thesis by (simp add: generateAndStoreEmbedding_def)
qed

lemma document_rows_result:
  "document_rows docId (delete_document_embeddings docId rows @
      map (chunk_row fetch sha256 now docId chunks) ks) =
   map (chunk_row fetch sha256 now docId chunks) ks"
proof -
  have "filter (\<lambda>r. ref_id r = docId \<and> document_family (ref_type r))
          (map (chunk_row fetch sha256 now docId chunks) ks) =
        map (chunk_row fetch sha256 now docId chunks) ks"
    by (rule filter_True) (auto simp: chunk_row_def chunk_ref_type_family)
  moreover have "filter (\<lambda>r. ref_id r = docId \<and> document_family (ref_type r))
          (delete_document_embeddings docId rows) = []"
    by (auto simp: delete_document_embeddings_def filter_empty_conv)
  ultimately show ?thesis by (simp add: document_rows_def)
qed

lemma other_rows_result:
  "filter (\<lambda>r. \<not> (ref_id r = docId \<and> document_family (ref_type r)))
     (delete_document_embeddings docId rows @ map (chunk_row fetch sha256 now docId chunks) ks) =
   delete_document_embeddings docId rows"
proof -
  have "filter (\<lambda>r. \<not> (ref_id r = docId \<and> document_family (ref_type r)))
          (map (chunk_row fetch sha256 now docId chunks) ks) = []"
    by (auto simp: filter_empty_conv chunk_row_def chunk_ref_type_family)
  then show ?thesis by (simp add: delete_document_embeddings_def)
qed

lemma document_chunks_short: "length content \<le> 2000 \<Longrightarrow> document_chunks content = Some [content]"
  by (simp add: document_chunks_def)

lemma document_chunks_long:
  "2000 < length content \<Longrightarrow>
   document_chunks content =
     Some (map (chunk_span content 500 50) [0..<chunk_count (length content) 500 50])"
  by (simp add: document_chunks_def chunkText_closed)

lemma document_chunks_total: "\<exists>chunks. document_chunks content = Some chunks \<and> chunks \<noteq> []"
proof (cases "length content \<le> 2000")
  case True
  then show ?thesis by (simp add: document_chunks_short)
next
  case False
  then have "2 \<le> chunk_count (length content) 500 50" by (intro chunk_count_ge2) simp_all
  with False show ?thesis by (auto simp: document_chunks_long)
qed

lemma generate_all_ok:
  assumes "document_chunks content = Some chunks"
    and "\<forall>k<length chunks. ok (fetch k (chunks ! k))"
  shows "generateAndStoreEmbedding fetch sha256 now docId content rows =
     Some (Inr True, delete_document_embeddings docId rows @
             map (chunk_row fetch sha256 now docId chunks) [0..<length chunks])"
proof -
  have "generateAndStoreEmbedding fetch sha256 now docId content rows =
     Some (embed_chunks fetch sha256 now docId (length chunks) (length chunks)
            (drop (length chunks) chunks)
            (delete_document_embeddings docId rows @
             map (chunk_row fetch sha256 now docId chunks) [0..<length chunks]))"
    using assms by (intro generate_prefix) simp_all
  then show ?thesis by simp
qed

lemma generate_not_ok:
  assumes "document_chunks content = Some chunks" "j < length chunks"
    and "fetch j (chunks ! j) = Not_ok" "\<forall>k<j. ok (fetch k (chunks ! k))"
  shows "generateAndStoreEmbedding fetch sha256 now docId content rows =
     Some (Inr False, delete_document_embeddings docId rows @
             map (chunk_row fetch sha256 now docId chunks) [0..<j])"
proof -
  from assms(2) have "drop j chunks = chunks ! j # drop (Suc j) chunks"
    by (simp add: Cons_nth_drop_Suc)
  moreover have "generateAndStoreEmbedding fetch sha256 now docId content rows =
     Some (embed_chunks fetch sha256 now docId (length chunks) j (drop j chunks)
            (delete_document_embeddings docId rows @
             map (chunk_row fetch sha256 now docId chunks) [0..<j]))"
    using assms by (intro generate_prefix) simp_all
  ultimately show ?thesis using assms(3) by simp
qed

lemma generate_throws:
  assumes "document_chunks content = Some chunks" "j < length chunks"
    and "fetch j (chunks ! j) = Throws" "\<forall>k<j. ok (fetch k (chunks ! k))"
  shows "generateAndStoreEmbedding fetch sha256 now docId content rows =
     Some (Inl Thrown, delete_document_embeddings docId rows @
             map (chunk_row fetch sha256 now docId chunks) [0..<j])"
proof -
  from assms(2) have "drop j chunks = chunks ! j # drop (Suc j) chunks"
    by (simp add: Cons_nth_drop_Suc)
  moreover have "generateAndStoreEmbedding fetch sha256 now docId content rows =
     Some (embed_chunks fetch sha256 now docId (length chunks) j (drop j chunks)
            (delete_document_embeddings docId rows @
             map (chunk_row fetch sha256 now docId chunks) [0..<j]))"
    using assms by (intro generate_prefix) simp_all
  ultimately show ?thesis using assms(3) by simp
qed

lemma chunks_2001: "document_chunks (replicate 2001 (CHR ''a'')) =
  Some (map (chunk_span (replicate 2001 (CHR ''a'')) 500 50) [0..<5])"
  by (simp add: document_chunks_long chunk_count_def)

text \<open>
  Claim C2, as the code has it. When the provider fails for some chunk (and answered for the
  chunks before it), \<open>generateAndStoreEmbedding\<close> stops at that chunk: it returns \<open>False\<close>
  when the response is not ok, and leaves by the exception when the request throws. Nothing
  is rolled back: the rows the document had before are deleted, and the rows of the chunks
  before the failing one stay in the store, a strict prefix of the document's chunks.
\<close>

theorem generateAndStoreEmbedding_provider_failure:
  assumes "document_chunks content = Some chunks" "j < length chunks"
    and "\<not> ok (fetch j (chunks ! j))" "\<forall>k<j. ok (fetch k (chunks ! k))"
  shows "\<exists>rows'. generateAndStoreEmbedding fetch sha256 now docId content rows =
                   Some (if fetch j (chunks ! j) = Not_ok then Inr False else Inl Thrown, rows') \<and>
     document_rows docId rows' = map (chunk_row fetch sha256 now docId chunks) [0..<j] \<and>
     length (document_rows docId rows') < length chunks"
proof (cases "fetch j (chunks ! j) = Not_ok")
  case True
  have "generateAndStoreEmbedding fetch sha256 now docId content rows =
     Some (Inr False, delete_document_embeddings docId rows @
             map (chunk_row fetch sha256 now docId chunks) [0..<j])"
    using assms True by (intro generate_not_ok) simp_all
  with assms(2) True show ?thesis by (simp add: document_rows_result)
next
  case False
  with assms(3) have t: "fetch j (chunks ! j) = Throws"
    by (cases "fetch j (chunks ! j)") (simp_all add: ok_def)
  have "generateAndStoreEmbedding fetch sha256 now docId content rows =
     Some (Inl Thrown, delete_document_embeddings docId rows @
             map (chunk_row fetch sha256 now docId chunks) [0..<j])"
    using assms t by (intro generate_throws) simp_all
  with assms(2) False show ?thesis by (simp add: document_rows_result)
qed

theorem generateAndStoreEmbedding_provider_failure_witness:
  "\<exists>rows'. generateAndStoreEmbedding (provider_failing_at 2) id id ''d1''
              (replicate 2001 (CHR ''a'')) [] = Some (Inr False, rows') \<and>
     map ref_type (document_rows ''d1'' rows') = [''document_chunk_0'', ''document_chunk_1'']"
proof -
  let ?chunks = "map (chunk_span (replicate 2001 (CHR ''a'')) 500 50) [0..<5]"
  have "\<exists>rows'. generateAndStoreEmbedding (provider_failing_at 2) id id ''d1''
              (replicate 2001 (CHR ''a'')) [] =
            Some (if provider_failing_at 2 2 (?chunks ! 2) = Not_ok then Inr False else Inl Thrown,
                  rows') \<and>
     document_rows ''d1'' rows' = map (chunk_row (provider_failing_at 2) id id ''d1'' ?chunks) [0..<2] \<and>
     length (document_rows ''d1'' rows') < length ?chunks"
    by (rule generateAndStoreEmbedding_provider_failure[OF chunks_2001])
       (simp_all add: provider_failing_at_def ok_def)
  moreover have "provider_failing_at 2 2 (?chunks ! 2) = Not_ok"
    by (simp add: provider_failing_at_def)
  moreover have "map ref_type (map (chunk_row (provider_failing_at 2) id id ''d1'' ?chunks) [0..<2])
     = [''document_chunk_0'', ''document_chunk_1'']"
    by (simp add: chunk_row_def chunk_ref_type_def show_nat_small digit_char_def upt_conv_Cons)
  ultimately show ?thesis by auto
qed

text \<open>
  Claim C2 fails as stated. A document of 2001 units has five chunks; when the response for
  chunk 1 is not ok, the function returns \<open>False\<close> and the store holds the row of chunk 0
  alone. And when the request for a chunk throws, the function does not return \<open>False\<close>: it
  leaves by the exception.
\<close>

theorem generateAndStoreEmbedding_partial_counterexample:
  "generateAndStoreEmbedding (provider_failing_at 1) id id ''d1'' (replicate 2001 (CHR ''a'')) [] =
     Some (Inr False,
       [\<lparr>ref_id = ''d1'', ref_type = ''document_chunk_0'', embedding = [],
         content_hash = replicate 500 (CHR ''a''), created_at = 0\<rparr>]) \<and>
   map_option length (document_chunks (replicate 2001 (CHR ''a''))) = Some 5 \<and>
   generateAndStoreEmbedding provider_throwing id id ''d1'' ''Hello world'' [] =
     Some (Inl Thrown, [])"
proof -
  let ?chunks = "map (chunk_span (replicate 2001 (CHR ''a'')) 500 50) [0..<5]"
  have "generateAndStoreEmbedding (provider_failing_at 1) id id ''d1''
          (replicate 2001 (CHR ''a'')) [] =
        Some (Inr False, delete_document_embeddings ''d1'' [] @
                map (chunk_row (provider_failing_at 1) id id ''d1'' ?chunks) [0..<1])"
    by (rule generate_not_ok[OF chunks_2001]) (simp_all add: provider_failing_at_def ok_def)
  moreover have "chunk_row (provider_failing_at 1) id id ''d1'' ?chunks 0 =
     \<lparr>ref_id = ''d1'', ref_type = ''document_chunk_0'', embedding = [],
         content_hash = replicate 500 (CHR ''a''), created_at = 0\<rparr>"
    by (simp add: chunk_row_def chunk_ref_type_def show_nat_small digit_char_def
        provider_failing_at_def body_def chunk_span_def upt_conv_Cons)
  moreover have "generateAndStoreEmbedding provider_throwing id id ''d1'' ''Hello world'' [] =
     Some (Inl Thrown, [])"
    by (simp add: generateAndStoreEmbedding_def document_chunks_def provider_throwing_def
        delete_document_embeddings_def)
  ultimately show ?thesis
    by (simp add: delete_document_embeddings_def chunks_2001)
qed

lemma chunk_row_key:
  "row_key (chunk_row fetch sha256 now docId chunks i) = (chunk_ref_type (length chunks) i, docId)"
  by (simp add: row_key_def chunk_row_def)

lemma delete_new_rows:
  "delete_document_embeddings docId (map (chunk_row fetch sha256 now docId chunks) ks) = []"
  by (auto simp: delete_document_embeddings_def filter_empty_conv chunk_row_def chunk_ref_type_family)

lemma delete_idem:
  "delete_document_embeddings docId (delete_document_embeddings docId rows) =
   delete_document_embeddings docId rows"
  by (simp add: delete_document_embeddings_def)

lemma delete_append:
  "delete_document_embeddings docId (xs @ ys) =
   delete_document_embeddings docId xs @ delete_document_embeddings docId ys"
  by (simp add: delete_document_embeddings_def)

lemma distinct_result_keys:
  assumes "distinct (map row_key rows)" "n = 1 \<longrightarrow> j \<le> 1"
  shows "distinct (map row_key (delete_document_embeddings docId rows) @
                   map (\<lambda>i. (chunk_ref_type n i, docId)) [0..<j])"
proof -
  have a: "distinct (map row_key (delete_document_embeddings docId rows))"
    using assms(1) by (simp add: delete_document_embeddings_def distinct_map_filter)
  have "inj_on (chunk_ref_type n) {0..<j}" using assms(2) by (rule chunk_ref_type_inj_on)
  then have "inj_on (\<lambda>i. (chunk_ref_type n i, docId)) (set [0..<j])"
    by (auto simp: inj_on_def)
  then have b: "distinct (map (\<lambda>i. (chunk_ref_type n i, docId)) [0..<j])"
    by (simp add: distinct_map)
  have c: "set (map row_key (delete_document_embeddings docId rows)) \<inter>
           set (map (\<lambda>i. (chunk_ref_type n i, docId)) [0..<j]) = {}"
    using deleted_rows_fresh[of docId rows "{0..<j}" n] by fastforce
  from a b c show ?thesis by (simp only: distinct_append)
qed

text \<open>
  Claim C4. Running the ingestion twice for the same document id and content, the provider
  answering every request both times, leaves the same keys \<open>(ref_type, ref_id)\<close> as running it
  once: the second run returns \<open>True\<close>, the keys of the store are those after the first run,
  no key occurs twice (given that none did before, as the unique index demands), and the
  rows of the document's family are exactly one per chunk, so no row of an earlier run is
  left over.
\<close>

theorem generateAndStoreEmbedding_idempotent:
  assumes "document_chunks content = Some chunks"
    and "\<forall>k<length chunks. ok (fetch1 k (chunks ! k))"
    and "\<forall>k<length chunks. ok (fetch2 k (chunks ! k))"
    and "distinct (map row_key rows)"
  shows "\<exists>rows1 rows2.
     generateAndStoreEmbedding fetch1 sha256 now1 docId content rows = Some (Inr True, rows1) \<and>
     generateAndStoreEmbedding fetch2 sha256 now2 docId content rows1 = Some (Inr True, rows2) \<and>
     map row_key rows2 = map row_key rows1 \<and> distinct (map row_key rows2) \<and>
     map row_key (document_rows docId rows2) =
       map (\<lambda>i. (chunk_ref_type (length chunks) i, docId)) [0..<length chunks]"
proof -
  let ?n = "length chunks"
  let ?del = "delete_document_embeddings docId rows"
  let ?rows1 = "?del @ map (chunk_row fetch1 sha256 now1 docId chunks) [0..<?n]"
  let ?rows2 = "?del @ map (chunk_row fetch2 sha256 now2 docId chunks) [0..<?n]"
  have r1: "generateAndStoreEmbedding fetch1 sha256 now1 docId content rows = Some (Inr True, ?rows1)"
    using assms(1,2) by (intro generate_all_ok) simp_all
  have "generateAndStoreEmbedding fetch2 sha256 now2 docId content ?rows1 =
        Some (Inr True, delete_document_embeddings docId ?rows1 @
                map (chunk_row fetch2 sha256 now2 docId chunks) [0..<?n])"
    using assms(1,3) by (intro generate_all_ok) simp_all
  then have r2: "generateAndStoreEmbedding fetch2 sha256 now2 docId content ?rows1 =
        Some (Inr True, ?rows2)"
    by (simp add: delete_append delete_idem delete_new_rows)
  have keys: "map row_key ?rows2 = map row_key ?rows1"
    by (simp add: chunk_row_key comp_def)
  have eq: "map row_key ?rows2 = map row_key ?del @ map (\<lambda>i. (chunk_ref_type ?n i, docId)) [0..<?n]"
    by (simp add: chunk_row_key comp_def)
  have "distinct (map row_key ?del @ map (\<lambda>i. (chunk_ref_type ?n i, docId)) [0..<?n])"
    using assms(4) by (intro distinct_result_keys) simp_all
  then have dist: "distinct (map row_key ?rows2)" unfolding eq .
  have fam: "map row_key (document_rows docId ?rows2) =
       map (\<lambda>i. (chunk_ref_type ?n i, docId)) [0..<?n]"
    by (simp add: document_rows_result chunk_row_key comp_def)
  from r1 r2 keys dist fam show ?thesis by blast
qed

lemma chunks_hello: "document_chunks ''Hello world'' = Some [''Hello world'']"
  by (simp add: document_chunks_short)

theorem generateAndStoreEmbedding_idempotent_witness:
  "\<exists>rows1 rows2.
     generateAndStoreEmbedding provider_ok id id ''d1'' ''Hello world'' [] = Some (Inr True, rows1) \<and>
     generateAndStoreEmbedding provider_ok id Suc ''d1'' ''Hello world'' rows1 = Some (Inr True, rows2) \<and>
     map row_key rows2 = map row_key rows1 \<and> distinct (map row_key rows2) \<and>
     map row_key (document_rows ''d1'' rows2) = [(''document'', ''d1'')]"
proof -
  have "\<exists>rows1 rows2.
     generateAndStoreEmbedding provider_ok id id ''d1'' ''Hello world'' [] = Some (Inr True, rows1) \<and>
     generateAndStoreEmbedding provider_ok id Suc ''d1'' ''Hello world'' rows1 = Some (Inr True, rows2) \<and>
     map row_key rows2 = map row_key rows1 \<and> distinct (map row_key rows2) \<and>
     map row_key (document_rows ''d1'' rows2) =
       map (\<lambda>i. (chunk_ref_type (length [''Hello world'']) i, ''d1'')) [0..<length [''Hello world'']]"
    by (rule generateAndStoreEmbedding_idempotent[OF chunks_hello])
       (simp_all add: provider_ok_def ok_def)
  then show ?thesis by (simp add: chunk_ref_type_def)
qed

lemma chunks_3000: "length content = 3000 \<Longrightarrow>
  document_chunks content = Some (map (chunk_span content 500 50) [0..<7])"
  by (simp add: document_chunks_long chunk_count_def)

lemma map_chunk_row_ref_type:
  "map ref_type (map (chunk_row fetch sha256 now docId chunks) ks) =
   map (chunk_ref_type (length chunks)) ks"
  by (simp add: chunk_row_def comp_def)

lemma map_chunk_row_hash:
  "map content_hash (map (chunk_row fetch sha256 now docId chunks) [0..<length chunks]) =
   map sha256 chunks"
proof -
  have "map content_hash (map (chunk_row fetch sha256 now docId chunks) [0..<length chunks]) =
        map sha256 (map ((!) chunks) [0..<length chunks])"
    by (simp add: chunk_row_def comp_def)
  then show ?thesis by (simp only: map_nth)
qed

text \<open>
  Claim C5. With a provider that answers every request, the ingestion returns \<open>True\<close> and
  stores one row per chunk. Content of at most 2000 units is a single chunk and its row has
  \<open>ref_type\<close> \<open>document\<close>; longer content is chunked by \<open>chunkText\<close> with size 500 and overlap 50
  and the row of chunk \<open>i\<close> has \<open>ref_type\<close> \<open>document_chunk_i\<close>; content of 3000 units gives
  exactly 7 rows. The content hash of a row is the digest of its chunk's text, so chunks with
  distinct texts carry distinct hashes wherever the digest does not collide on them.
\<close>

theorem ingestion_chunking_policy:
  assumes "document_chunks content = Some chunks"
    and "\<forall>k<length chunks. ok (fetch k (chunks ! k))"
  shows "\<exists>rows'.
     generateAndStoreEmbedding fetch sha256 now docId content rows = Some (Inr True, rows') \<and>
     length (document_rows docId rows') = length chunks \<and>
     (length content \<le> 2000 \<longrightarrow>
        chunks = [content] \<and> map ref_type (document_rows docId rows') = [''document'']) \<and>
     (2000 < length content \<longrightarrow>
        chunkText content 500 50 = Some chunks \<and>
        map ref_type (document_rows docId rows') =
          map (\<lambda>i. ''document_chunk_'' @ show_nat i) [0..<length chunks]) \<and>
     (length content = 3000 \<longrightarrow> length (document_rows docId rows') = 7) \<and>
     map content_hash (document_rows docId rows') = map sha256 chunks \<and>
     (inj_on sha256 (set chunks) \<longrightarrow>
        (\<forall>i<length chunks. \<forall>j<length chunks. chunks ! i \<noteq> chunks ! j \<longrightarrow>
           content_hash (document_rows docId rows' ! i) \<noteq>
           content_hash (document_rows docId rows' ! j)))"
proof -
  let ?n = "length chunks"
  let ?new = "map (chunk_row fetch sha256 now docId chunks) [0..<?n]"
  let ?rows' = "delete_document_embeddings docId rows @ ?new"
  have run: "generateAndStoreEmbedding fetch sha256 now docId content rows = Some (Inr True, ?rows')"
    using assms by (intro generate_all_ok) simp_all
  have fam: "document_rows docId ?rows' = ?new" by (rule document_rows_result)
  have len: "length (document_rows docId ?rows') = ?n" by (simp add: fam)
  have short: "length content \<le> 2000 \<longrightarrow>
        chunks = [content] \<and> map ref_type (document_rows docId ?rows') = [''document'']"
  proof
    assume "length content \<le> 2000"
    with assms(1) have c: "chunks = [content]" by (simp add: document_chunks_short)
    then have "map ref_type ?new = [''document'']"
      by (simp add: chunk_row_def chunk_ref_type_def)
    with c fam show "chunks = [content] \<and> map ref_type (document_rows docId ?rows') = [''document'']"
      by simp
  qed
  have long: "2000 < length content \<longrightarrow>
        chunkText content 500 50 = Some chunks \<and>
        map ref_type (document_rows docId ?rows') =
          map (\<lambda>i. ''document_chunk_'' @ show_nat i) [0..<?n]"
  proof
    assume l: "2000 < length content"
    with assms(1) have ct: "chunkText content 500 50 = Some chunks"
      by (simp add: document_chunks_def)
    from l have "2 \<le> chunk_count (length content) 500 50" by (intro chunk_count_ge2) simp_all
    moreover from l assms(1) have "?n = chunk_count (length content) 500 50"
      by (auto simp: document_chunks_long)
    ultimately have "?n \<noteq> 1" by simp
    then have "map ref_type ?new = map (\<lambda>i. ''document_chunk_'' @ show_nat i) [0..<?n]"
      by (simp add: chunk_row_def chunk_ref_type_def)
    with ct fam show "chunkText content 500 50 = Some chunks \<and>
        map ref_type (document_rows docId ?rows') =
          map (\<lambda>i. ''document_chunk_'' @ show_nat i) [0..<?n]" by simp
  qed
  have seven: "length content = 3000 \<longrightarrow> length (document_rows docId ?rows') = 7"
  proof
    assume "length content = 3000"
    from chunks_3000[OF this] assms(1) have "?n = 7" by auto
    with len show "length (document_rows docId ?rows') = 7" by simp
  qed
  have hash: "map content_hash (document_rows docId ?rows') = map sha256 chunks"
    unfolding fam by (rule map_chunk_row_hash)
  have inj: "inj_on sha256 (set chunks) \<longrightarrow>
        (\<forall>i<?n. \<forall>j<?n. chunks ! i \<noteq> chunks ! j \<longrightarrow>
           content_hash (document_rows docId ?rows' ! i) \<noteq>
           content_hash (document_rows docId ?rows' ! j))"
  proof (intro impI allI)
    fix i j
    assume inj: "inj_on sha256 (set chunks)" and i: "i < ?n" and j: "j < ?n"
      and ne: "chunks ! i \<noteq> chunks ! j"
    from inj i j ne have "sha256 (chunks ! i) \<noteq> sha256 (chunks ! j)"
      by (auto dest: inj_onD)
    with i j show "content_hash (document_rows docId ?rows' ! i) \<noteq>
           content_hash (document_rows docId ?rows' ! j)"
      by (simp add: fam chunk_row_def)
  qed
  show ?thesis
    by (rule exI[of _ ?rows']) (intro conjI run len short long seven hash inj)
qed

lemma sample_ok:
  "\<forall>k<length chunks. ok (provider_ok k (chunks ! k))"
  by (simp add: provider_ok_def ok_def)

theorem ingestion_chunking_policy_witness:
  "(\<exists>rows'. generateAndStoreEmbedding provider_ok id id ''d1'' (replicate 3000 (CHR ''a'')) [] =
       Some (Inr True, rows') \<and>
     length (document_rows ''d1'' rows') = 7 \<and>
     content_hash (document_rows ''d1'' rows' ! 0) \<noteq> content_hash (document_rows ''d1'' rows' ! 6)) \<and>
   (\<exists>rows'. generateAndStoreEmbedding provider_ok id id ''d1'' ''Hello world'' [] =
       Some (Inr True, rows') \<and>
     map ref_type (document_rows ''d1'' rows') = [''document''])"
proof -
  let ?long = "replicate 3000 (CHR ''a'')"
  let ?chunks = "map (chunk_span ?long 500 50) [0..<7]"
  have l: "length ?long = 3000" by (rule length_replicate)
  have n: "length ?chunks = 7" by simp
  have c0: "?chunks ! 0 = chunk_span ?long 500 50 0" and c6: "?chunks ! 6 = chunk_span ?long 500 50 6"
    by (simp_all only: nth_map_upt [of _ 7 0, simplified])
  have "length (chunk_span ?long 500 50 0) \<noteq> length (chunk_span ?long 500 50 6)"
    by (simp add: chunk_span_def)
  then have ne: "?chunks ! 0 \<noteq> ?chunks ! 6" unfolding c0 c6 by auto
  have inj: "inj_on id (set ?chunks)" by (rule inj_on_id)
  from ingestion_chunking_policy[of ?long ?chunks provider_ok
      id id "''d1''" "[]", OF chunks_3000[OF l] sample_ok]
  obtain rows1 where
    "generateAndStoreEmbedding provider_ok id id ''d1'' ?long [] = Some (Inr True, rows1)"
    "length ?long = 3000 \<longrightarrow> length (document_rows ''d1'' rows1) = 7"
    "inj_on id (set ?chunks) \<longrightarrow>
       (\<forall>i<length ?chunks. \<forall>j<length ?chunks. ?chunks ! i \<noteq> ?chunks ! j \<longrightarrow>
           content_hash (document_rows ''d1'' rows1 ! i) \<noteq>
           content_hash (document_rows ''d1'' rows1 ! j))"
    by (elim exE conjE)
  moreover have "(0::nat) < length ?chunks" "(6::nat) < length ?chunks" unfolding n by simp_all
  ultimately have a: "\<exists>rows'. generateAndStoreEmbedding provider_ok id id ''d1'' ?long [] =
       Some (Inr True, rows') \<and> length (document_rows ''d1'' rows') = 7 \<and>
       content_hash (document_rows ''d1'' rows' ! 0) \<noteq> content_hash (document_rows ''d1'' rows' ! 6)"
    using l inj ne by (intro exI[of _ rows1]) blast
  have s: "length ''Hello world'' \<le> 2000" by simp
  from ingestion_chunking_policy[of "''Hello world''" "[''Hello world'']" provider_ok
      id id "''d1''" "[]", OF chunks_hello sample_ok]
  obtain rows2 where
    "generateAndStoreEmbedding provider_ok id id ''d1'' ''Hello world'' [] = Some (Inr True, rows2)"
    "length ''Hello world'' \<le> 2000 \<longrightarrow>
       [''Hello world''] = [''Hello world''] \<and> map ref_type (document_rows ''d1'' rows2) = [''document'']"
    by (elim exE conjE)
  with s have b: "\<exists>rows'. generateAndStoreEmbedding provider_ok id id ''d1'' ''Hello world'' [] =
       Some (Inr True, rows') \<and> map ref_type (document_rows ''d1'' rows') = [''document'']"
    by (intro exI[of _ rows2]) (simp only: simp_thms)
  from a b show ?thesis by (rule conjI)
qed

section \<open>Properties of the observation store\<close>

lemma conflict_update_fields [simp]:
  "obs_id (conflict_update new r) = obs_id r"
  "obs_fingerprint (conflict_update new r) = obs_fingerprint r"
  "obs_content (conflict_update new r) = obs_content new"
  "obs_metadata (conflict_update new r) = obs_metadata new"
  "obs_updated_at (conflict_update new r) = obs_updated_at new"
  "obs_category (conflict_update new r) = obs_category r"
  "obs_source_agent (conflict_update new r) = obs_source_agent r"
  "obs_severity (conflict_update new r) = obs_severity r"
  "obs_status (conflict_update new r) = obs_status r"
  "obs_created_at (conflict_update new r) = obs_created_at r"
  by (simp_all add: conflict_update_def)

lemma upsert_observation_result:
  "upsert_observation new seen rows = Inr (r, table') \<Longrightarrow>
   obs_fingerprint new \<notin> set (map obs_fingerprint seen) \<Longrightarrow>
   distinct (map obs_fingerprint (seen @ rows)) \<Longrightarrow>
   r \<in> set table' \<and> obs_fingerprint r = obs_fingerprint new \<and>
   distinct (map obs_fingerprint table')"
proof (induction new seen rows rule: upsert_observation.induct)
  case (1 new seen)
  then show ?case by (auto split: if_splits)
next
  case (2 new seen x rows)
  show ?case
  proof (cases "obs_fingerprint x = obs_fingerprint new")
    case True
    with 2(2) have r: "r = conflict_update new x" and t: "table' = seen @ r # rows"
      by auto
    from r True have "obs_fingerprint r = obs_fingerprint x" by simp
    with 2(4) t True show ?thesis by simp
  next
    case False
    with 2(2) have "upsert_observation new (seen @ [x]) rows = Inr (r, table')" by simp
    moreover from False 2(3) have "obs_fingerprint new \<notin> set (map obs_fingerprint (seen @ [x]))"
      by auto
    moreover from 2(4) have "distinct (map obs_fingerprint ((seen @ [x]) @ rows))" by simp
    ultimately show ?thesis using 2(1)[OF False] by blast
  qed
qed

lemma upsert_observation_conflict:
  "r \<in> set rows \<Longrightarrow> obs_fingerprint r = obs_fingerprint new \<Longrightarrow>
   distinct (map obs_fingerprint rows) \<Longrightarrow>
   upsert_observation new seen rows =
     Inr (conflict_update new r,
          seen @ map (\<lambda>x. if x = r then conflict_update new r else x) rows)"
proof (induction rows arbitrary: seen)
  case Nil
  then show ?case by simp
next
  case (Cons x rows)
  show ?case
  proof (cases "obs_fingerprint x = obs_fingerprint new")
    case True
    have rx: "r = x"
    proof (rule ccontr)
      assume "r \<noteq> x"
      with Cons.prems(1) have "r \<in> set rows" by simp
      then have "obs_fingerprint r \<in> set (map obs_fingerprint rows)" by simp
      with Cons.prems(2,3) True show False by simp
    qed
    have "map (\<lambda>y. if y = x then conflict_update new x else y) rows = rows"
    proof (rule map_idI)
      fix y assume "y \<in> set rows"
      then have "obs_fingerprint y \<in> set (map obs_fingerprint rows)" by simp
      with Cons.prems(3) have "y \<noteq> x" by auto
      then show "(if y = x then conflict_update new x else y) = y" by simp
    qed
    with True show ?thesis unfolding rx by simp
  next
    case False
    with Cons.prems(2) have ne: "x \<noteq> r" by auto
    with Cons.prems(1) have "r \<in> set rows" by simp
    moreover from Cons.prems(3) have "distinct (map obs_fingerprint rows)" by simp
    ultimately have "upsert_observation new (seen @ [x]) rows =
       Inr (conflict_update new r,
            (seen @ [x]) @ map (\<lambda>x. if x = r then conflict_update new r else x) rows)"
      using Cons.prems(2) by (intro Cons.IH)
    with False ne show ?thesis by simp
  qed
qed

lemma count_fingerprint:
  "distinct (map obs_fingerprint rows) \<Longrightarrow> r \<in> set rows \<Longrightarrow>
   length (filter (\<lambda>x. obs_fingerprint x = obs_fingerprint r) rows) = 1"
proof (induction rows)
  case Nil
  then show ?case by simp
next
  case (Cons x rows)
  show ?case
  proof (cases "obs_fingerprint x = obs_fingerprint r")
    case True
    have "filter (\<lambda>y. obs_fingerprint y = obs_fingerprint r) rows = []"
    proof (rule filter_False, rule ballI)
      fix y assume "y \<in> set rows"
      then have "obs_fingerprint y \<in> set (map obs_fingerprint rows)" by simp
      with Cons.prems(1) True show "\<not> obs_fingerprint y = obs_fingerprint r" by auto
    qed
    with True show ?thesis by simp
  next
    case False
    with Cons.prems(2) have "r \<in> set rows" by auto
    with Cons False show ?thesis by simp
  qed
qed

lemma same_triple_same_data:
  "in_category d2 = in_category d1 \<Longrightarrow> in_source_agent d2 = in_source_agent d1 \<Longrightarrow>
   in_content d2 = in_content d1 \<Longrightarrow> fingerprintData d2 = fingerprintData d1"
  by (simp add: fingerprintData_def)

lemma replace_keeps_ids:
  "map obs_id (map (\<lambda>x. if x = r then conflict_update new r else x) rows) = map obs_id rows"
  by (induction rows) simp_all

lemma replace_keeps_fingerprints:
  "map obs_fingerprint (map (\<lambda>x. if x = r then conflict_update new r else x) rows) =
   map obs_fingerprint rows"
  by (induction rows) simp_all

lemma replace_member:
  "r \<in> set rows \<Longrightarrow>
   conflict_update new r \<in> set (map (\<lambda>x. if x = r then conflict_update new r else x) rows)"
  by (induction rows) auto

text \<open>
  Claim C3, as the code has it. Let a first \<open>createObservation\<close> succeed on a table whose
  fingerprints are unique (the unique index), and let a second call carry the same category,
  source agent and content and pass the table's checks. Then the second call succeeds too,
  inserts nothing, and returns the row of the first call with the same id and fingerprint,
  its content, metadata and \<open>updated_at\<close> set from the second call; exactly one row of the
  table has this fingerprint.
\<close>

theorem createObservation_dedup:
  assumes uniq: "distinct (map obs_fingerprint table)"
    and first: "createObservation sha256 now1 id1 d1 table = Inr (r1, table1)"
    and triple: "in_category d2 = in_category d1" "in_source_agent d2 = in_source_agent d1"
                "in_content d2 = in_content d1"
    and checks: "observation_checks (proposed_row sha256 now2 id2 d2)"
  shows "\<exists>r2 table2.
     createObservation sha256 now2 id2 d2 table1 = Inr (r2, table2) \<and>
     length (filter (\<lambda>x. obs_fingerprint x = sha256 (fingerprintData d1)) table2) = 1 \<and>
     length table2 = length table1 \<and>
     r2 \<in> set table2 \<and>
     obs_id r2 = obs_id r1 \<and> obs_fingerprint r2 = obs_fingerprint r1 \<and>
     obs_fingerprint r1 = sha256 (fingerprintData d1) \<and>
     obs_content r2 = in_content d2 \<and>
     obs_metadata r2 = (case in_metadata d2 of None \<Rightarrow> ''{}'' | Some m \<Rightarrow> m) \<and>
     obs_updated_at r2 = now2 \<and>
     map obs_id table2 = map obs_id table1 \<and>
     map obs_fingerprint table2 = map obs_fingerprint table1"
proof -
  let ?p1 = "proposed_row sha256 now1 id1 d1"
  let ?p2 = "proposed_row sha256 now2 id2 d2"
  let ?r2 = "conflict_update ?p2 r1"
  let ?table2 = "map (\<lambda>x. if x = r1 then ?r2 else x) table1"
  from first have up1: "upsert_observation ?p1 [] table = Inr (r1, table1)"
    by (simp add: createObservation_def Let_def split: if_splits)
  from upsert_observation_result[OF up1] uniq
  have r1: "r1 \<in> set table1" and fp1: "obs_fingerprint r1 = obs_fingerprint ?p1"
    and d1: "distinct (map obs_fingerprint table1)" by simp_all
  have fp: "obs_fingerprint ?p2 = obs_fingerprint ?p1"
    using same_triple_same_data[OF triple] by (simp add: proposed_row_def)
  have fpd: "obs_fingerprint ?p1 = sha256 (fingerprintData d1)"
    by (simp add: proposed_row_def)
  have "upsert_observation ?p2 [] table1 = Inr (?r2, [] @ ?table2)"
    using r1 fp1 fp d1 by (intro upsert_observation_conflict) simp_all
  with checks have run: "createObservation sha256 now2 id2 d2 table1 = Inr (?r2, ?table2)"
    by (simp add: createObservation_def Let_def)
  have ids: "map obs_id ?table2 = map obs_id table1" by (rule replace_keeps_ids)
  have fps: "map obs_fingerprint ?table2 = map obs_fingerprint table1"
    by (rule replace_keeps_fingerprints)
  have mem: "?r2 \<in> set ?table2" using r1 by (rule replace_member)
  have d2: "distinct (map obs_fingerprint ?table2)" using d1 by (simp only: fps)
  have "length (filter (\<lambda>x. obs_fingerprint x = obs_fingerprint ?r2) ?table2) = 1"
    using d2 mem by (rule count_fingerprint)
  then have one: "length (filter (\<lambda>x. obs_fingerprint x = sha256 (fingerprintData d1)) ?table2) = 1"
    by (simp add: fp1 fpd)
  have len: "length ?table2 = length table1" by simp
  have f2: "obs_id ?r2 = obs_id r1" "obs_fingerprint ?r2 = obs_fingerprint r1"
    "obs_fingerprint r1 = sha256 (fingerprintData d1)"
    "obs_content ?r2 = in_content d2"
    "obs_metadata ?r2 = (case in_metadata d2 of None \<Rightarrow> ''{}'' | Some m \<Rightarrow> m)"
    "obs_updated_at ?r2 = now2"
    by (simp_all add: proposed_row_def fp1)
  show ?thesis
    by (rule exI[of _ ?r2], rule exI[of _ ?table2]) (intro conjI run one len mem f2 ids fps)
qed

theorem createObservation_dedup_witness:
  "\<exists>r1 r2 table2.
     createObservation id 10 ''id-1'' invoice_overdue [] = Inr (r1, [r1]) \<and>
     createObservation id 20 ''id-2'' invoice_overdue [r1] = Inr (r2, table2) \<and>
     length table2 = 1 \<and> obs_id r2 = ''id-1'' \<and> obs_fingerprint r2 = obs_fingerprint r1 \<and>
     obs_updated_at r2 = 20"
proof -
  let ?r1 = "proposed_row id 10 ''id-1'' invoice_overdue"
  have first: "createObservation id 10 ''id-1'' invoice_overdue [] = Inr (?r1, [?r1])"
    by (simp add: Let_def createObservation_def observation_checks_def check_holds_def proposed_row_def
        invoice_overdue_def)
  have checks: "observation_checks (proposed_row id 20 ''id-2'' invoice_overdue)"
    by (simp add: observation_checks_def check_holds_def proposed_row_def invoice_overdue_def)
  have "distinct (map obs_fingerprint [])" by simp
  from createObservation_dedup[OF this first refl refl refl checks]
  obtain r2 table2 where
    "createObservation id 20 ''id-2'' invoice_overdue [?r1] = Inr (r2, table2)"
    "length table2 = length [?r1]" "obs_id r2 = obs_id ?r1" "obs_fingerprint r2 = obs_fingerprint ?r1"
    "obs_updated_at r2 = 20"
    by (elim exE conjE)
  moreover have "obs_id ?r1 = ''id-1''" by (simp add: proposed_row_def)
  ultimately show ?thesis using first
    by (intro exI[of _ ?r1] exI[of _ r2] exI[of _ table2]) simp
qed

text \<open>
  Claim C3 fails as stated: the checks of the table apply to the second call as well. With
  the same triple and an empty severity, the second call is refused and raises an error.
\<close>

theorem createObservation_check_counterexample:
  "createObservation id 10 ''id-1'' invoice_overdue [] =
     Inr (proposed_row id 10 ''id-1'' invoice_overdue,
          [proposed_row id 10 ''id-1'' invoice_overdue]) \<and>
   in_category (invoice_overdue\<lparr>in_severity := Some ''''\<rparr>) = in_category invoice_overdue \<and>
   in_source_agent (invoice_overdue\<lparr>in_severity := Some ''''\<rparr>) = in_source_agent invoice_overdue \<and>
   in_content (invoice_overdue\<lparr>in_severity := Some ''''\<rparr>) = in_content invoice_overdue \<and>
   createObservation id 20 ''id-2'' (invoice_overdue\<lparr>in_severity := Some ''''\<rparr>)
       [proposed_row id 10 ''id-1'' invoice_overdue] = Inl Check_violation"
  by (simp add: Let_def createObservation_def observation_checks_def check_holds_def
      proposed_row_def invoice_overdue_def)

text \<open>
  Claim C10. The fingerprint of an observation is the digest of its category, source agent
  and content joined by colons. The joined text does not determine the triple:
  \<open>collision_first\<close> and \<open>collision_second\<close> differ in source agent and content and both join to
  \<open>risk:executor:ops:disk full\<close>, hence have the same fingerprint under every digest.
  Submitting the first and then the second leaves one row, the first one's, with the content
  of the second.
\<close>

theorem fingerprint_not_injective:
  "fingerprintData d = in_category d @ '':'' @ in_source_agent d @ '':'' @ in_content d \<and>
   obs_fingerprint (proposed_row sha256 now new_id d) =
     sha256 (in_category d @ '':'' @ in_source_agent d @ '':'' @ in_content d) \<and>
   fingerprintData collision_first = ''risk:executor:ops:disk full'' \<and>
   fingerprintData collision_second = ''risk:executor:ops:disk full'' \<and>
   (in_category collision_first, in_source_agent collision_first, in_content collision_first) \<noteq>
   (in_category collision_second, in_source_agent collision_second, in_content collision_second) \<and>
   fingerprintData collision_first = fingerprintData collision_second \<and>
   obs_fingerprint (proposed_row sha256 now1 id1 collision_first) =
   obs_fingerprint (proposed_row sha256 now2 id2 collision_second) \<and>
   obs_fingerprint (proposed_row sha256 now1 id1 collision_first) =
     sha256 ''risk:executor:ops:disk full'' \<and>
   createObservation sha256 now1 id1 collision_first [] =
     Inr (proposed_row sha256 now1 id1 collision_first,
          [proposed_row sha256 now1 id1 collision_first]) \<and>
   createObservation sha256 now2 id2 collision_second
       [proposed_row sha256 now1 id1 collision_first] =
     Inr ((proposed_row sha256 now1 id1 collision_first)
             \<lparr>obs_content := ''ops:disk full'', obs_updated_at := now2\<rparr>,
          [(proposed_row sha256 now1 id1 collision_first)
             \<lparr>obs_content := ''ops:disk full'', obs_updated_at := now2\<rparr>])"
  by (simp add: Let_def createObservation_def observation_checks_def check_holds_def proposed_row_def
      collision_first_def collision_second_def fingerprintData_def conflict_update_def)

section \<open>Properties of the process orchestration\<close>

lemma run_stream_append:
  "run_stream cfg (xs @ ys) s = run_stream cfg ys (run_stream cfg xs s)"
  by (induction xs arbitrary: s) simp_all

lemma handle_nonterminal:
  assumes "\<not> terminal e" "\<not> stream_closed s"
  shows "fullResponse (handle cfg e s) = fullResponse s @ stdout_text [e]"
    and "\<not> stream_closed (handle cfg e s)"
    and "event_store (handle cfg e s) = event_store s"
  using assms by (cases e; simp add: on_data_def on_timer_def Let_def)+

lemma stdout_text_Cons: "stdout_text (e # es) = stdout_text [e] @ stdout_text es"
  by (cases e) simp_all

lemma run_stream_nonterminal:
  assumes "list_all (\<lambda>e. \<not> terminal e) pre" "\<not> stream_closed s"
  shows "fullResponse (run_stream cfg pre s) = fullResponse s @ stdout_text pre \<and>
         \<not> stream_closed (run_stream cfg pre s) \<and>
         event_store (run_stream cfg pre s) = event_store s"
  using assms
proof (induction pre arbitrary: s)
  case Nil
  then show ?case by simp
next
  case (Cons e pre)
  from Cons.prems have e: "\<not> terminal e" and pre: "list_all (\<lambda>e. \<not> terminal e) pre" by simp_all
  note h = handle_nonterminal[OF e Cons.prems(2), of cfg]
  from Cons.IH[OF pre h(2)] h(1,3) show ?case
    by (simp add: stdout_text_Cons[of e pre])
qed

lemma handle_terminal:
  assumes "terminal t" "\<not> stream_closed s"
  shows "event_store (handle cfg t s) =
     (let text = (if fullResponse s \<noteq> [] then fullResponse s
                  else case t of Proc_error \<Rightarrow> error_fallback cfg
                         | Proc_close code \<Rightarrow> (if code = Some 0 then [] else close_fallback cfg code)
                         | _ \<Rightarrow> [])
      in if text = [] \<and> t \<noteq> Proc_error then event_store s
         else store_response cfg text (event_store s))"
  using assms
  by (cases t)
     (auto simp: on_error_def on_close_def after_fallback_def close_stream_def store_full_def Let_def)

lemma run_stream_single_terminal:
  assumes "list_all (\<lambda>e. \<not> terminal e) pre" "terminal t" "error_fallback cfg \<noteq> []"
  shows "event_store (run_stream cfg (pre @ [t]) (start_stream events)) =
     (if final_text cfg pre t = [] then events
      else store_response cfg (final_text cfg pre t) events)"
proof -
  let ?s = "run_stream cfg pre (start_stream events)"
  have "\<not> stream_closed (start_stream events)" by (simp add: start_stream_def)
  from run_stream_nonterminal[OF assms(1) this, of cfg]
  have f: "fullResponse ?s = stdout_text pre" and c: "\<not> stream_closed ?s"
    and e: "event_store ?s = events" by (simp_all add: start_stream_def)
  show ?thesis
    using assms(2,3) handle_terminal[OF assms(2) c, of cfg]
    by (cases t) (auto simp: run_stream_append f e final_text_def Let_def)
qed

lemma transcripts_append: "transcripts (xs @ ys) = transcripts xs @ transcripts ys"
  by (simp add: transcripts_def)

lemma chat_fallbacks_nonempty:
  "error_fallback (chat_config agent) \<noteq> []" "close_fallback (chat_config agent) code \<noteq> []"
  by (simp_all add: chat_config_def chat_unavailable_def)

lemma quorum_fallbacks_nonempty:
  "error_fallback (quorum_config tid tt) \<noteq> []" "close_fallback (quorum_config tid tt) code \<noteq> []"
  by (simp_all add: quorum_config_def quorum_unavailable_def)

lemma final_text_empty_iff:
  assumes "terminal t" "error_fallback cfg \<noteq> []" "\<And>code. close_fallback cfg code \<noteq> []"
  shows "final_text cfg pre t = [] \<longleftrightarrow> (t = Proc_close (Some 0) \<and> stdout_text pre = [])"
  using assms by (cases t) (auto simp: final_text_def)

lemma chat_stream_transcripts:
  assumes "list_all (\<lambda>e. \<not> terminal e) pre" "terminal t"
  shows "transcripts (event_store (run_stream (chat_config agent) (pre @ [t]) (start_stream events))) =
     transcripts events @
     (if t = Proc_close (Some 0) \<and> stdout_text pre = [] then []
      else [fst (storeChatMessage agent (final_text (chat_config agent) pre t) ''agent'' [])])"
proof -
  have "store_response (chat_config agent) msg events =
        events @ [fst (storeChatMessage agent msg ''agent'' [])]" for msg
    by (simp add: chat_config_def storeChatMessage_def Let_def)
  moreover have "is_transcript (fst (storeChatMessage agent msg ''agent'' []))" for msg
    by (simp add: storeChatMessage_def is_transcript_def Let_def)
  ultimately show ?thesis
    using run_stream_single_terminal[OF assms chat_fallbacks_nonempty(1), of agent events]
      final_text_empty_iff[OF assms(2) chat_fallbacks_nonempty, of agent pre]
    by (simp add: transcripts_append) (simp add: transcripts_def)
qed

lemma quorum_stream_transcripts:
  assumes "list_all (\<lambda>e. \<not> terminal e) pre" "terminal t"
  shows "transcripts (event_store (run_stream (quorum_config tid tt) (pre @ [t]) (start_stream events))) =
     transcripts events @
     (if t = Proc_close (Some 0) \<and> stdout_text pre = [] then []
      else [fst (storeQuorumMessage (final_text (quorum_config tid tt) pre t) ''council'' tid tt [])])"
proof -
  have "store_response (quorum_config tid tt) msg events =
        events @ [fst (storeQuorumMessage msg ''council'' tid tt [])]" for msg
    by (simp add: quorum_config_def storeQuorumMessage_def Let_def)
  moreover have "is_transcript (fst (storeQuorumMessage msg ''council'' tid tt []))" for msg
    by (simp add: storeQuorumMessage_def is_transcript_def Let_def)
  ultimately show ?thesis
    using run_stream_single_terminal[OF assms quorum_fallbacks_nonempty(1), of tid tt events]
      final_text_empty_iff[OF assms(2) quorum_fallbacks_nonempty, of tid tt pre]
    by (simp add: transcripts_append) (simp add: transcripts_def)
qed

lemma user_message_not_transcript:
  "transcripts (snd (storeChatMessage a m ''user'' events)) = transcripts events"
  "transcripts (snd (storeQuorumMessage m ''user'' tid tt events)) = transcripts events"
  by (simp_all add: storeChatMessage_def storeQuorumMessage_def transcripts_def is_transcript_def
      Let_def)

lemma final_text_output:
  "stdout_text pre \<noteq> [] \<Longrightarrow> final_text cfg pre t = stdout_text pre"
  by (simp add: final_text_def)

lemma chat_stream_added:
  assumes "list_all (\<lambda>e. \<not> terminal e) pre" "terminal t"
    and "agent \<noteq> []" "getAgent agent \<noteq> None" "message \<noteq> []"
  shows "\<exists>added.
     transcripts (snd (chat_POST (Some agent) (Some message) (Spawned (pre @ [t])) events)) =
       transcripts events @ added \<and>
     length added = (if t = Proc_close (Some 0) \<and> stdout_text pre = [] then 0 else 1) \<and>
     list_all (\<lambda>e. ev_description e \<noteq> []) added \<and>
     (stdout_text pre \<noteq> [] \<longrightarrow> map ev_description added = [stdout_text pre])"
proof -
  let ?cfg = "chat_config agent"
  let ?added = "if t = Proc_close (Some 0) \<and> stdout_text pre = [] then []
      else [fst (storeChatMessage agent (final_text ?cfg pre t) ''agent'' [])]"
  have d: "ev_description (fst (storeChatMessage agent m ''agent'' [])) = m" for m
    by (simp add: storeChatMessage_def Let_def)
  have ne: "\<not> (t = Proc_close (Some 0) \<and> stdout_text pre = []) \<Longrightarrow> final_text ?cfg pre t \<noteq> []"
    using final_text_empty_iff[OF assms(2) chat_fallbacks_nonempty, of agent pre] by simp
  have "snd (chat_POST (Some agent) (Some message) (Spawned (pre @ [t])) events) =
        event_store (run_stream ?cfg (pre @ [t])
          (start_stream (snd (storeChatMessage agent message ''user'' events))))"
    using assms(3-5) by (auto simp: chat_POST_def Let_def)
  then have "transcripts (snd (chat_POST (Some agent) (Some message) (Spawned (pre @ [t])) events)) =
        transcripts events @ ?added"
    by (simp only: chat_stream_transcripts[OF assms(1,2)] user_message_not_transcript)
  moreover have "length ?added = (if t = Proc_close (Some 0) \<and> stdout_text pre = [] then 0 else 1)"
    by simp
  moreover have "list_all (\<lambda>e. ev_description e \<noteq> []) ?added"
    using ne by (simp add: d)
  moreover have "stdout_text pre \<noteq> [] \<longrightarrow> map ev_description ?added = [stdout_text pre]"
    by (simp add: d final_text_output)
  ultimately show ?thesis by (intro exI[of _ ?added] conjI)
qed

lemma quorum_stream_added:
  assumes "list_all (\<lambda>e. \<not> terminal e) pre" "terminal t" "message \<noteq> []"
  shows "\<exists>added.
     transcripts (snd (quorum_POST (Some message) threadId threadTitle (Spawned (pre @ [t])) events)) =
       transcripts events @ added \<and>
     length added = (if t = Proc_close (Some 0) \<and> stdout_text pre = [] then 0 else 1) \<and>
     list_all (\<lambda>e. ev_description e \<noteq> []) added \<and>
     (stdout_text pre \<noteq> [] \<longrightarrow> map ev_description added = [stdout_text pre])"
proof -
  define tid where "tid = (if truthy threadId then threadId else Some ''default'')"
  define tt where "tt = (if truthy threadTitle then threadTitle
                     else if truthy threadId then None else Some ''Default Conversation'')"
  let ?cfg = "quorum_config tid tt"
  let ?added = "if t = Proc_close (Some 0) \<and> stdout_text pre = [] then []
      else [fst (storeQuorumMessage (final_text ?cfg pre t) ''council'' tid tt [])]"
  have d: "ev_description (fst (storeQuorumMessage m ''council'' tid tt [])) = m" for m
    by (simp add: storeQuorumMessage_def Let_def)
  have ne: "\<not> (t = Proc_close (Some 0) \<and> stdout_text pre = []) \<Longrightarrow> final_text ?cfg pre t \<noteq> []"
    using final_text_empty_iff[OF assms(2) quorum_fallbacks_nonempty, of tid tt pre] by simp
  have "transcripts (snd (quorum_POST (Some message) threadId threadTitle (Spawned (pre @ [t])) events)) =
        transcripts events @ ?added"
    using assms(3) quorum_stream_transcripts[OF assms(1,2), of tid tt]
    unfolding quorum_POST_def tid_def[symmetric] tt_def[symmetric]
    by (simp add: Let_def user_message_not_transcript)
  moreover have "length ?added = (if t = Proc_close (Some 0) \<and> stdout_text pre = [] then 0 else 1)"
    by simp
  moreover have "list_all (\<lambda>e. ev_description e \<noteq> []) ?added"
    using ne by (simp add: d)
  moreover have "stdout_text pre \<noteq> [] \<longrightarrow> map ev_description ?added = [stdout_text pre]"
    by (simp add: d final_text_output)
  ultimately show ?thesis by (intro exI[of _ ?added] conjI)
qed

lemma chat_spawn_failure:
  assumes "agent \<noteq> []" "getAgent agent \<noteq> None" "message \<noteq> []"
  shows "\<exists>e. transcripts (snd (chat_POST (Some agent) (Some message) Spawn_throws events)) =
       transcripts events @ [e] \<and> ev_description e = chat_unavailable \<and> ev_description e \<noteq> []"
  using assms
  by (simp add: chat_POST_def Let_def storeChatMessage_def transcripts_def is_transcript_def
      chat_unavailable_def)

lemma quorum_spawn_failure:
  assumes "message \<noteq> []"
  shows "\<exists>e. transcripts (snd (quorum_POST (Some message) threadId threadTitle Spawn_throws events)) =
       transcripts events @ [e] \<and> ev_description e = quorum_unavailable \<and> ev_description e \<noteq> []"
  using assms
  by (simp add: quorum_POST_def Let_def storeQuorumMessage_def transcripts_def is_transcript_def
      quorum_unavailable_def)

lemma handle_adds_nonempty:
  assumes st: "\<And>msg evs. \<exists>e. store_response cfg msg evs = evs @ [e] \<and> ev_description e = msg"
    and fb: "error_fallback cfg \<noteq> []"
  shows "\<exists>added. event_store (handle cfg e s) = event_store s @ added \<and>
                 list_all (\<lambda>x. ev_description x \<noteq> []) added"
proof -
  have store: "fullResponse s' \<noteq> [] \<Longrightarrow>
      \<exists>added. event_store (store_full cfg s') = event_store s' @ added \<and>
                list_all (\<lambda>x. ev_description x \<noteq> []) added" for s'
  proof -
    assume ne: "fullResponse s' \<noteq> []"
    from st[of "fullResponse s'" "event_store s'"] obtain x where
      "store_response cfg (fullResponse s') (event_store s') = event_store s' @ [x]"
      "ev_description x = fullResponse s'" by blast
    with ne show ?thesis by (intro exI[of _ "[x]"]) (simp add: store_full_def)
  qed
  have keep: "\<exists>added. event_store s = event_store s @ added \<and>
                list_all (\<lambda>x. ev_description x \<noteq> []) added"
    by (intro exI[of _ "[]"]) simp
  show ?thesis
  proof (cases e)
    case (Stdout x)
    then show ?thesis using keep by (simp add: on_data_def Let_def)
  next
    case (Stderr x)
    then show ?thesis using keep by simp
  next
    case Timer_fired
    then show ?thesis using keep by (simp add: on_timer_def)
  next
    case Proc_error
    show ?thesis
    proof (cases "fullResponse s = []")
      case True
      show ?thesis
      proof (cases "stream_closed s")
        case c: True
        with True Proc_error show ?thesis using keep by (simp add: on_error_def Let_def)
      next
        case c: False
        let ?s' = "s\<lparr>timer_set := False, fullResponse := error_fallback cfg,
                      enqueued := enqueued s @ [error_fallback cfg]\<rparr>"
        have "fullResponse ?s' \<noteq> []" using fb by simp
        from store[OF this] True c Proc_error show ?thesis
          by (simp add: on_error_def Let_def close_stream_def)
      qed
    next
      case False
      let ?s' = "s\<lparr>timer_set := False\<rparr>"
      have "fullResponse ?s' \<noteq> []" using False by simp
      from store[OF this] False Proc_error show ?thesis
        by (simp add: on_error_def Let_def close_stream_def)
    qed
  next
    case (Proc_close code)
    have af: "\<exists>added. event_store (after_fallback cfg s') = event_store s' @ added \<and>
                list_all (\<lambda>x. ev_description x \<noteq> []) added" for s'
    proof (cases "fullResponse s' = []")
      case True
      then show ?thesis by (intro exI[of _ "[]"]) (simp add: after_fallback_def close_stream_def)
    next
      case False
      from store[OF this] False show ?thesis by (simp add: after_fallback_def close_stream_def)
    qed
    show ?thesis
    proof (cases "code \<noteq> Some 0 \<and> fullResponse s = []")
      case True
      show ?thesis
      proof (cases "stream_closed s")
        case c: True
        with True Proc_close show ?thesis using keep by (simp add: on_close_def Let_def)
      next
        case c: False
        from af[of "s\<lparr>timer_set := False, fullResponse := close_fallback cfg code,
                      enqueued := enqueued s @ [close_fallback cfg code]\<rparr>"]
          True c Proc_close show ?thesis
          by (simp add: on_close_def Let_def)
      qed
    next
      case False
      from af[of "s\<lparr>timer_set := False\<rparr>"] False Proc_close show ?thesis
        by (auto simp add: on_close_def Let_def)
    qed
  qed
qed

lemma run_stream_adds_nonempty:
  assumes st: "\<And>msg evs. \<exists>e. store_response cfg msg evs = evs @ [e] \<and> ev_description e = msg"
    and fb: "error_fallback cfg \<noteq> []"
  shows "\<exists>added. event_store (run_stream cfg es s) = event_store s @ added \<and>
                 list_all (\<lambda>x. ev_description x \<noteq> []) added"
proof (induction es arbitrary: s)
  case Nil
  show ?case by (intro exI[of _ "[]"]) simp
next
  case (Cons e es)
  from handle_adds_nonempty[OF st fb, of e s] obtain a1 where
    a1: "event_store (handle cfg e s) = event_store s @ a1"
        "list_all (\<lambda>x. ev_description x \<noteq> []) a1" by blast
  from Cons[of "handle cfg e s"] obtain a2 where
    a2: "event_store (run_stream cfg es (handle cfg e s)) = event_store (handle cfg e s) @ a2"
        "list_all (\<lambda>x. ev_description x \<noteq> []) a2" by blast
  from a1 a2 show ?case by (intro exI[of _ "a1 @ a2"]) simp
qed

lemma chat_store_response:
  "\<exists>e. store_response (chat_config agent) msg evs = evs @ [e] \<and> ev_description e = msg"
  by (simp add: chat_config_def storeChatMessage_def Let_def)

lemma quorum_store_response:
  "\<exists>e. store_response (quorum_config tid tt) msg evs = evs @ [e] \<and> ev_description e = msg"
  by (simp add: quorum_config_def storeQuorumMessage_def Let_def)

lemma transcripts_nonempty:
  "list_all (\<lambda>x. ev_description x \<noteq> []) added \<Longrightarrow>
   list_all (\<lambda>x. ev_description x \<noteq> []) (transcripts added)"
  by (auto simp: list_all_iff transcripts_def)

lemma chat_any_run_nonempty:
  assumes "agent \<noteq> []" "getAgent agent \<noteq> None" "message \<noteq> []"
  shows "\<exists>added.
     transcripts (snd (chat_POST (Some agent) (Some message) (Spawned pes) events)) =
       transcripts events @ added \<and>
     list_all (\<lambda>e. ev_description e \<noteq> []) added"
proof -
  let ?events1 = "snd (storeChatMessage agent message ''user'' events)"
  have eq: "snd (chat_POST (Some agent) (Some message) (Spawned pes) events) =
        event_store (run_stream (chat_config agent) pes (start_stream ?events1))"
    using assms by (auto simp: chat_POST_def Let_def)
  from run_stream_adds_nonempty[OF chat_store_response chat_fallbacks_nonempty(1),
      of agent pes "start_stream ?events1"]
  obtain added where
    a: "event_store (run_stream (chat_config agent) pes (start_stream ?events1)) =
        event_store (start_stream ?events1) @ added"
    and n: "list_all (\<lambda>x. ev_description x \<noteq> []) added" by blast
  have "transcripts (snd (chat_POST (Some agent) (Some message) (Spawned pes) events)) =
        transcripts events @ transcripts added"
    unfolding eq a
    by (simp add: start_stream_def transcripts_append user_message_not_transcript)
  with transcripts_nonempty[OF n] show ?thesis
    by (intro exI[of _ "transcripts added"] conjI)
qed

lemma quorum_any_run_nonempty:
  assumes "message \<noteq> []"
  shows "\<exists>added.
     transcripts (snd (quorum_POST (Some message) threadId threadTitle (Spawned pes) events)) =
       transcripts events @ added \<and>
     list_all (\<lambda>e. ev_description e \<noteq> []) added"
proof -
  define tid where "tid = (if truthy threadId then threadId else Some ''default'')"
  define tt where "tt = (if truthy threadTitle then threadTitle
                     else if truthy threadId then None else Some ''Default Conversation'')"
  let ?events1 = "snd (storeQuorumMessage message ''user'' tid tt events)"
  have eq: "snd (quorum_POST (Some message) threadId threadTitle (Spawned pes) events) =
        event_store (run_stream (quorum_config tid tt) pes (start_stream ?events1))"
    using assms by (simp add: quorum_POST_def Let_def tid_def tt_def)
  from run_stream_adds_nonempty[OF quorum_store_response quorum_fallbacks_nonempty(1),
      of tid tt pes "start_stream ?events1"]
  obtain added where
    a: "event_store (run_stream (quorum_config tid tt) pes (start_stream ?events1)) =
        event_store (start_stream ?events1) @ added"
    and n: "list_all (\<lambda>x. ev_description x \<noteq> []) added" by blast
  have "transcripts (snd (quorum_POST (Some message) threadId threadTitle (Spawned pes) events)) =
        transcripts events @ transcripts added"
    unfolding eq a
    by (simp add: start_stream_def transcripts_append user_message_not_transcript)
  with transcripts_nonempty[OF n] show ?thesis
    by (intro exI[of _ "transcripts added"] conjI)
qed

text \<open>
  Claim C1, as the code has it. Take an invocation of either endpoint that passes
  validation. Whatever the process delivers, every transcript event the invocation adds to
  the store has a text that is not empty. When \<^verbatim>\<open>spawn\<close> throws, exactly one transcript, the
  fallback, is added. When the process delivers output and timer events and then exactly
  one terminal event, \<^verbatim>\<open>error\<close> or \<^verbatim>\<open>close\<close> (a timeout kill ends in a \<^verbatim>\<open>close\<close> with a
  code that is not 0), exactly one transcript is added, the accumulated output when there
  was any and a fallback text otherwise, with one exception: a process that closes with exit
  code 0 and no output adds none.
\<close>

theorem orchestrator_transcript:
  assumes "list_all (\<lambda>e. \<not> terminal e) pre" "terminal t"
    and "agent \<noteq> []" "getAgent agent \<noteq> None" "message \<noteq> []"
  shows
    "(\<exists>added.
       transcripts (snd (chat_POST (Some agent) (Some message) (Spawned (pre @ [t])) events)) =
         transcripts events @ added \<and>
       length added = (if t = Proc_close (Some 0) \<and> stdout_text pre = [] then 0 else 1) \<and>
       list_all (\<lambda>e. ev_description e \<noteq> []) added \<and>
       (stdout_text pre \<noteq> [] \<longrightarrow> map ev_description added = [stdout_text pre])) \<and>
     (\<exists>e. transcripts (snd (chat_POST (Some agent) (Some message) Spawn_throws events)) =
         transcripts events @ [e] \<and>
       ev_description e = chat_unavailable \<and> ev_description e \<noteq> []) \<and>
     (\<exists>added.
       transcripts (snd (quorum_POST (Some message) threadId threadTitle (Spawned (pre @ [t])) events)) =
         transcripts events @ added \<and>
       length added = (if t = Proc_close (Some 0) \<and> stdout_text pre = [] then 0 else 1) \<and>
       list_all (\<lambda>e. ev_description e \<noteq> []) added \<and>
       (stdout_text pre \<noteq> [] \<longrightarrow> map ev_description added = [stdout_text pre])) \<and>
     (\<exists>e. transcripts (snd (quorum_POST (Some message) threadId threadTitle Spawn_throws events)) =
         transcripts events @ [e] \<and>
       ev_description e = quorum_unavailable \<and> ev_description e \<noteq> []) \<and>
     (\<exists>added.
       transcripts (snd (chat_POST (Some agent) (Some message) (Spawned pes) events)) =
         transcripts events @ added \<and>
       list_all (\<lambda>e. ev_description e \<noteq> []) added) \<and>
     (\<exists>added.
       transcripts (snd (quorum_POST (Some message) threadId threadTitle (Spawned pes) events)) =
         transcripts events @ added \<and>
       list_all (\<lambda>e. ev_description e \<noteq> []) added)"
  by (intro conjI chat_stream_added quorum_stream_added chat_spawn_failure quorum_spawn_failure
      chat_any_run_nonempty quorum_any_run_nonempty assms)

theorem orchestrator_transcript_witness:
  "list_all (\<lambda>e. \<not> terminal e) [Stdout ''ok'', Timer_fired] \<and> terminal (Proc_close None) \<and>
   getAgent ''executor'' \<noteq> None \<and>
   (\<exists>added.
       transcripts (snd (chat_POST (Some ''executor'') (Some ''hi'')
         (Spawned ([Stdout ''ok'', Timer_fired] @ [Proc_close None])) [])) = transcripts [] @ added \<and>
       length added = 1 \<and> map ev_description added = [''ok''])"
proof -
  have h1: "list_all (\<lambda>e. \<not> terminal e) [Stdout ''ok'', Timer_fired]" by simp
  have h2: "terminal (Proc_close None)" by simp
  have h3: "''executor'' \<noteq> []" and h5: "''hi'' \<noteq> []" by simp_all
  have h4: "getAgent ''executor'' \<noteq> None" by (simp add: getAgent_def AGENTS_def)
  from orchestrator_transcript[OF h1 h2 h3 h4 h5, of "[]" None None "[]", THEN conjunct1]
  obtain added where
    "transcripts (snd (chat_POST (Some ''executor'') (Some ''hi'')
         (Spawned ([Stdout ''ok'', Timer_fired] @ [Proc_close None])) [])) = transcripts [] @ added"
    "length added = (if Proc_close None = Proc_close (Some 0) \<and>
                        stdout_text [Stdout ''ok'', Timer_fired] = [] then 0 else 1)"
    "stdout_text [Stdout ''ok'', Timer_fired] \<noteq> [] \<longrightarrow>
       map ev_description added = [stdout_text [Stdout ''ok'', Timer_fired]]"
    by (elim exE conjE)
  then have "\<exists>added.
       transcripts (snd (chat_POST (Some ''executor'') (Some ''hi'')
         (Spawned ([Stdout ''ok'', Timer_fired] @ [Proc_close None])) [])) = transcripts [] @ added \<and>
       length added = 1 \<and> map ev_description added = [''ok'']"
    by (intro exI[of _ added]) simp
  with h1 h2 h4 show ?thesis by (intro conjI)
qed

text \<open>
  Claim C1 fails as stated: after a clean exit (code 0) without output, neither endpoint has
  stored a transcript.
\<close>

theorem orchestrator_empty_exit_counterexample:
  "transcripts (snd (chat_POST (Some ''executor'') (Some ''hi'') (Spawned [Proc_close (Some 0)]) [])) = [] \<and>
   transcripts (snd (quorum_POST (Some ''hi'') None None (Spawned [Proc_close (Some 0)]) [])) = []"
  by (simp add: chat_POST_def quorum_POST_def getAgent_def AGENTS_def Let_def start_stream_def
      on_close_def after_fallback_def close_stream_def storeChatMessage_def storeQuorumMessage_def
      transcripts_def is_transcript_def truthy_def)

text \<open>
  A run with two terminal events is not covered by the count above: should the process
  deliver \<^verbatim>\<open>error\<close> and then \<^verbatim>\<open>close\<close>, both handlers store the fallback.
\<close>

lemma error_then_close_stores_twice:
  "map ev_description (transcripts (snd (chat_POST (Some ''executor'') (Some ''hi'')
      (Spawned [Proc_error, Proc_close (Some (- 2))]) []))) = [chat_unavailable, chat_unavailable]"
  by (simp add: chat_POST_def getAgent_def AGENTS_def Let_def start_stream_def chat_config_def
      on_error_def on_close_def after_fallback_def close_stream_def store_full_def
      storeChatMessage_def transcripts_def is_transcript_def chat_unavailable_def)

section \<open>Properties of the document upload\<close>

lemma generate_result_flag:
  assumes "document_chunks content = Some chunks"
  shows "\<exists>res rows'.
     generateAndStoreEmbedding fetch sha256 now docId content rows = Some (res, rows') \<and>
     (res = Inr True \<longleftrightarrow> (\<forall>k<length chunks. ok (fetch k (chunks ! k))))"
proof (cases "\<forall>k<length chunks. ok (fetch k (chunks ! k))")
  case True
  have "generateAndStoreEmbedding fetch sha256 now docId content rows =
     Some (Inr True, delete_document_embeddings docId rows @
             map (chunk_row fetch sha256 now docId chunks) [0..<length chunks])"
    using assms True by (intro generate_all_ok) simp_all
  with True show ?thesis by simp
next
  case False
  define j where "j = (LEAST k. k < length chunks \<and> \<not> ok (fetch k (chunks ! k)))"
  from False have ex: "\<exists>k. k < length chunks \<and> \<not> ok (fetch k (chunks ! k))" by simp
  then have j: "j < length chunks \<and> \<not> ok (fetch j (chunks ! j))"
    unfolding j_def by (rule LeastI_ex)
  have before: "\<forall>k<j. ok (fetch k (chunks ! k))"
  proof (intro allI impI)
    fix k assume "k < j"
    then have "\<not> (k < length chunks \<and> \<not> ok (fetch k (chunks ! k)))"
      unfolding j_def by (rule not_less_Least)
    moreover from \<open>k < j\<close> j have "k < length chunks" by simp
    ultimately show "ok (fetch k (chunks ! k))" by simp
  qed
  from j have "fetch j (chunks ! j) = Not_ok \<or> fetch j (chunks ! j) = Throws"
    by (cases "fetch j (chunks ! j)") (simp_all add: ok_def)
  then show ?thesis
  proof
    assume n: "fetch j (chunks ! j) = Not_ok"
    have "generateAndStoreEmbedding fetch sha256 now docId content rows =
     Some (Inr False, delete_document_embeddings docId rows @
             map (chunk_row fetch sha256 now docId chunks) [0..<j])"
      using assms j n before by (intro generate_not_ok) simp_all
    with False show ?thesis by simp
  next
    assume n: "fetch j (chunks ! j) = Throws"
    have "generateAndStoreEmbedding fetch sha256 now docId content rows =
     Some (Inl Thrown, delete_document_embeddings docId rows @
             map (chunk_row fetch sha256 now docId chunks) [0..<j])"
      using assms j n before by (intro generate_throws) simp_all
    with False show ?thesis by simp
  qed
qed

lemma store_upload_persists:
  assumes "env_accepts env \<lparr>doc_id = env_new_id env, doc_title = title, doc_content = content,
             doc_type = docType, doc_metadata = meta, doc_tags = tags\<rparr>"
    and "document_chunks content = Some chunks"
  shows "\<exists>embedded st'.
     store_upload env title content docType meta tags st =
       Some (Upload_ok (env_new_id env) embedded, st') \<and>
     documents st' = documents st @
       [\<lparr>doc_id = env_new_id env, doc_title = title, doc_content = content,
         doc_type = docType, doc_metadata = meta, doc_tags = tags\<rparr>] \<and>
     embedded = (\<forall>k<length chunks. ok (env_fetch env k (chunks ! k)))"
proof -
  from generate_result_flag[OF assms(2), of "env_fetch env" "env_sha256 env" "env_now env"
      "env_new_id env" "embeddings st"]
  obtain res rows' where
    g: "generateAndStoreEmbedding (env_fetch env) (env_sha256 env) (env_now env)
          (env_new_id env) content (embeddings st) = Some (res, rows')"
    and f: "res = Inr True \<longleftrightarrow> (\<forall>k<length chunks. ok (env_fetch env k (chunks ! k)))"
    by blast
  have "(case res of Inl e \<Rightarrow> False | Inr b \<Rightarrow> b) = (res = Inr True)"
    by (cases res) auto
  with f have flag: "(case res of Inl e \<Rightarrow> False | Inr b \<Rightarrow> b) =
      (\<forall>k<length chunks. ok (env_fetch env k (chunks ! k)))" by simp
  show ?thesis
    using assms(1) g flag
    by (simp add: store_upload_def storeDocumentFromUpload_def embed_and_respond_def Let_def)
qed

text \<open>
  Claim C7. For an upload that passes validation (JSON body or multipart file) and whose row
  the table accepts, whatever the Embedding Provider does: the handler answers with the
  document id and the flag \<open>embedded\<close>, never with an error; the document row is in the table
  afterwards; and \<open>embedded\<close> is true exactly when the provider answered for every chunk, so
  a failed or thrown embedding shows as \<open>embedded = False\<close> only.
\<close>

theorem upload_persists_document:
  assumes "title \<noteq> []" "docType \<noteq> []" "document_chunks content = Some chunks"
    and "env_accepts env \<lparr>doc_id = env_new_id env, doc_title = title, doc_content = content,
             doc_type = docType, doc_metadata = meta, doc_tags = tags\<rparr>"
  shows
    "(content \<noteq> [] \<and> meta = [] \<and> tags = (case jtags of None \<Rightarrow> [] | Some ts \<Rightarrow> ts) \<longrightarrow>
       (\<exists>embedded st'.
          upload_POST env (Json_body (Some title) (Some content) (Some docType) jtags) st =
            Some (Upload_ok (env_new_id env) embedded, st') \<and>
          documents st' = documents st @
            [\<lparr>doc_id = env_new_id env, doc_title = title, doc_content = content,
              doc_type = docType, doc_metadata = meta, doc_tags = tags\<rparr>] \<and>
          embedded = (\<forall>k<length chunks. ok (env_fetch env k (chunks ! k))))) \<and>
     (file_content env f = Inr content \<and>
      (if falsy tagsJson then Some [] else env_parse_tags env (the tagsJson)) = Some tags \<and>
      meta = [(''filename'', file_name f), (''file_type'', file_type f),
              (''file_size'', show_nat (file_size f))] \<longrightarrow>
       (\<exists>embedded st'.
          upload_POST env (Multipart (Some f) (Some title) (Some docType) tagsJson) st =
            Some (Upload_ok (env_new_id env) embedded, st') \<and>
          documents st' = documents st @
            [\<lparr>doc_id = env_new_id env, doc_title = title, doc_content = content,
              doc_type = docType, doc_metadata = meta, doc_tags = tags\<rparr>] \<and>
          embedded = (\<forall>k<length chunks. ok (env_fetch env k (chunks ! k)))))"
proof (intro conjI impI)
  assume a: "content \<noteq> [] \<and> meta = [] \<and> tags = (case jtags of None \<Rightarrow> [] | Some ts \<Rightarrow> ts)"
  have "upload_POST env (Json_body (Some title) (Some content) (Some docType) jtags) st =
        store_upload env title content docType meta tags st"
    using a assms(1,2) by (simp add: upload_POST_def falsy_def)
  with store_upload_persists[OF assms(4,3), of st]
  show "\<exists>embedded st'.
          upload_POST env (Json_body (Some title) (Some content) (Some docType) jtags) st =
            Some (Upload_ok (env_new_id env) embedded, st') \<and>
          documents st' = documents st @
            [\<lparr>doc_id = env_new_id env, doc_title = title, doc_content = content,
              doc_type = docType, doc_metadata = meta, doc_tags = tags\<rparr>] \<and>
          embedded = (\<forall>k<length chunks. ok (env_fetch env k (chunks ! k)))"
    by simp
next
  assume a: "file_content env f = Inr content \<and>
      (if falsy tagsJson then Some [] else env_parse_tags env (the tagsJson)) = Some tags \<and>
      meta = [(''filename'', file_name f), (''file_type'', file_type f),
              (''file_size'', show_nat (file_size f))]"
  have "upload_POST env (Multipart (Some f) (Some title) (Some docType) tagsJson) st =
        store_upload env title content docType meta tags st"
    using a assms(1,2) by (simp add: upload_POST_def falsy_def)
  with store_upload_persists[OF assms(4,3), of st]
  show "\<exists>embedded st'.
          upload_POST env (Multipart (Some f) (Some title) (Some docType) tagsJson) st =
            Some (Upload_ok (env_new_id env) embedded, st') \<and>
          documents st' = documents st @
            [\<lparr>doc_id = env_new_id env, doc_title = title, doc_content = content,
              doc_type = docType, doc_metadata = meta, doc_tags = tags\<rparr>] \<and>
          embedded = (\<forall>k<length chunks. ok (env_fetch env k (chunks ! k)))"
    by simp
qed

theorem upload_persists_document_witness:
  "(\<exists>st'. upload_POST (sample_env (provider_failing_at 0))
            (Json_body (Some ''t'') (Some ''Hello world'') (Some ''note'') None) empty_store =
          Some (Upload_ok ''doc-1'' False, st') \<and>
        map doc_content (documents st') = [''Hello world'']) \<and>
   (\<exists>st'. upload_POST (sample_env provider_ok)
            (Multipart (Some \<lparr>file_name = ''a.txt'', file_type = ''text/plain'', file_size = 11,
                               file_data = ''Hello world''\<rparr>)
               (Some ''t'') (Some ''note'') None) empty_store =
          Some (Upload_ok ''doc-1'' True, st') \<and>
        map doc_content (documents st') = [''Hello world''])"
proof -
  let ?f = "\<lparr>file_name = ''a.txt'', file_type = ''text/plain'', file_size = 11,
             file_data = ''Hello world''\<rparr>"
  let ?meta = "[(''filename'', file_name ?f), (''file_type'', file_type ?f),
              (''file_size'', show_nat (file_size ?f))]"
  have a: "''t'' \<noteq> []" and b: "''note'' \<noteq> []" by simp_all
  have c1: "env_accepts (sample_env (provider_failing_at 0))
      \<lparr>doc_id = env_new_id (sample_env (provider_failing_at 0)), doc_title = ''t'',
        doc_content = ''Hello world'', doc_type = ''note'', doc_metadata = [], doc_tags = []\<rparr>"
    by (simp add: sample_env_def)
  have c2: "env_accepts (sample_env provider_ok)
      \<lparr>doc_id = env_new_id (sample_env provider_ok), doc_title = ''t'',
        doc_content = ''Hello world'', doc_type = ''note'', doc_metadata = ?meta, doc_tags = []\<rparr>"
    by (simp add: sample_env_def)
  have fc: "file_content (sample_env provider_ok) ?f = Inr ''Hello world''"
    by (simp add: file_content_def is_pdf_name_def lower_char_def sample_env_def Let_def)
  from upload_persists_document[where jtags = None and st = empty_store,
      OF a b chunks_hello c1, THEN conjunct1]
  have "\<exists>embedded st'. upload_POST (sample_env (provider_failing_at 0))
            (Json_body (Some ''t'') (Some ''Hello world'') (Some ''note'') None) empty_store =
          Some (Upload_ok (env_new_id (sample_env (provider_failing_at 0))) embedded, st') \<and>
        documents st' = documents empty_store @
          [\<lparr>doc_id = env_new_id (sample_env (provider_failing_at 0)), doc_title = ''t'',
            doc_content = ''Hello world'', doc_type = ''note'', doc_metadata = [], doc_tags = []\<rparr>] \<and>
        embedded = (\<forall>k<length [''Hello world''].
           ok (env_fetch (sample_env (provider_failing_at 0)) k ([''Hello world''] ! k)))"
    by simp
  then have j: "\<exists>st'. upload_POST (sample_env (provider_failing_at 0))
            (Json_body (Some ''t'') (Some ''Hello world'') (Some ''note'') None) empty_store =
          Some (Upload_ok ''doc-1'' False, st') \<and>
        map doc_content (documents st') = [''Hello world'']"
    by (auto simp: sample_env_def provider_failing_at_def ok_def empty_store_def)
  from upload_persists_document[where tagsJson = None and st = empty_store and f = ?f,
      OF a b chunks_hello c2, THEN conjunct2] fc
  have "\<exists>embedded st'. upload_POST (sample_env provider_ok)
            (Multipart (Some ?f) (Some ''t'') (Some ''note'') None) empty_store =
          Some (Upload_ok (env_new_id (sample_env provider_ok)) embedded, st') \<and>
        documents st' = documents empty_store @
          [\<lparr>doc_id = env_new_id (sample_env provider_ok), doc_title = ''t'',
            doc_content = ''Hello world'', doc_type = ''note'', doc_metadata = ?meta, doc_tags = []\<rparr>] \<and>
        embedded = (\<forall>k<length [''Hello world''].
           ok (env_fetch (sample_env provider_ok) k ([''Hello world''] ! k)))"
    by (simp add: falsy_def)
  then have m: "\<exists>st'. upload_POST (sample_env provider_ok)
            (Multipart (Some ?f) (Some ''t'') (Some ''note'') None) empty_store =
          Some (Upload_ok ''doc-1'' True, st') \<and>
        map doc_content (documents st') = [''Hello world'']"
    by (auto simp: sample_env_def provider_ok_def ok_def empty_store_def)
  from j m show ?thesis by (rule conjI)
qed

section \<open>Properties of the quiet-hours policy\<close>

text \<open>
  Claim C8. A run at a local hour inside the window \<open>[quietStart, quietEnd)\<close> sends no
  notification and leaves the Memory Store exactly as the same run outside the window does;
  the same run at an hour outside the window sends its notification.
\<close>

theorem quiet_hours_suppress_notifications_only:
  assumes "in_quiet_hours cfg quiet_hour" "\<not> in_quiet_hours cfg other_hour"
  shows "snd (agent_run cfg agent quiet_hour f m) = [] \<and>
         fst (agent_run cfg agent quiet_hour f m) = fst (agent_run cfg agent other_hour f m) \<and>
         fst (agent_run cfg agent quiet_hour f m) = write_findings f m \<and>
         snd (agent_run cfg agent other_hour f m) = [Notification agent f]"
  using assms by (simp add: agent_run_def notification_gate_def)

theorem quiet_hours_suppress_notifications_only_witness:
  "in_quiet_hours \<lparr>quietStart = 1, quietEnd = 8\<rparr> 3 \<and>
   \<not> in_quiet_hours \<lparr>quietStart = 1, quietEnd = 8\<rparr> 9 \<and>
   snd (agent_run \<lparr>quietStart = 1, quietEnd = 8\<rparr> ''executor'' 3
          \<lparr>found_tasks = [], found_observations = [invoice_overdue]\<rparr>
          \<lparr>mem_tasks = [], mem_observations = []\<rparr>) = [] \<and>
   fst (agent_run \<lparr>quietStart = 1, quietEnd = 8\<rparr> ''executor'' 3
          \<lparr>found_tasks = [], found_observations = [invoice_overdue]\<rparr>
          \<lparr>mem_tasks = [], mem_observations = []\<rparr>) =
     \<lparr>mem_tasks = [], mem_observations = [invoice_overdue]\<rparr> \<and>
   snd (agent_run \<lparr>quietStart = 1, quietEnd = 8\<rparr> ''executor'' 9
          \<lparr>found_tasks = [], found_observations = [invoice_overdue]\<rparr>
          \<lparr>mem_tasks = [], mem_observations = []\<rparr>) =
     [Notification ''executor'' \<lparr>found_tasks = [], found_observations = [invoice_overdue]\<rparr>]"
proof -
  have a: "in_quiet_hours \<lparr>quietStart = 1, quietEnd = 8\<rparr> 3"
    and b: "\<not> in_quiet_hours \<lparr>quietStart = 1, quietEnd = 8\<rparr> 9"
    by (simp_all add: in_quiet_hours_def)
  from quiet_hours_suppress_notifications_only[OF a b, of "''executor''"
      "\<lparr>found_tasks = [], found_observations = [invoice_overdue]\<rparr>"
      "\<lparr>mem_tasks = [], mem_observations = []\<rparr>"] a b
  show ?thesis by (auto simp: write_findings_def)
qed

end
